theory Spec2Isabelle
  imports
    Main
    "HOL-Library.Char_ord"
    "HOL-Library.List_Lexorder"
    "HOL-Library.Multiset"
begin

chapter \<open>The model\<close>

section \<open>Blood stock: the stock card and the dashboard grid\<close>

text \<open>
  Blood-type labels are strings, as in the source; the eight labels are the literal array
  that \<^verbatim>\<open>HospitalDashboard\<close> and \<^verbatim>\<open>AppointmentCard\<close> both map over.
\<close>

type_synonym bloodType = string

definition bloodTypes :: "bloodType list" where
  "bloodTypes = [''A+'', ''A-'', ''B+'', ''B-'', ''AB+'', ''AB-'', ''O+'', ''O-'']"

text \<open>
  The inventory document the dashboard subscribes to. \<^verbatim>\<open>bloodStock\<close> is an object
  keyed by label, so a label may be absent.
\<close>

record inventoryRecord =
  hospitalName :: string
  hospitalAddress :: string
  bloodStock :: "bloodType \<rightharpoonup> int"
  lastUpdated :: nat

text \<open>
  \<^verbatim>\<open>count={inventory.bloodStock[type] || 0}\<close>: an absent key reads \<^verbatim>\<open>undefined\<close>,
  which is falsy, so the count is 0; a stored 0 is falsy too and also yields 0.
\<close>

definition stockCount :: "inventoryRecord \<Rightarrow> bloodType \<Rightarrow> int" where
  "stockCount inventory type =
     (case bloodStock inventory type of
        None \<Rightarrow> 0
      | Some n \<Rightarrow> (if n = 0 then 0 else n))"

text \<open>
  \<^verbatim>\<open>StockCard\<close>: \<^verbatim>\<open>isLow = count < 5\<close>, \<^verbatim>\<open>isCritical = count === 0\<close>, and the caption
  \<^verbatim>\<open>isCritical ? 'OUT OF STOCK' : isLow ? 'LOW STOCK' : 'Units Available'\<close>.
  The severity is the branch of that conditional.
\<close>

definition isLow :: "int \<Rightarrow> bool" where
  "isLow cnt = (cnt < 5)"

definition isCritical :: "int \<Rightarrow> bool" where
  "isCritical cnt = (cnt = 0)"

datatype severity = Critical | Low | Normal

definition stockStatus :: "int \<Rightarrow> severity" where
  "stockStatus cnt = (if isCritical cnt then Critical else if isLow cnt then Low else Normal)"

definition stockCaption :: "int \<Rightarrow> string" where
  "stockCaption cnt =
     (if isCritical cnt then ''OUT OF STOCK''
      else if isLow cnt then ''LOW STOCK''
      else ''Units Available'')"

text \<open>
  The two buttons of the card: minus calls \<^verbatim>\<open>onUpdate(type, -1)\<close> and is disabled when
  \<^verbatim>\<open>count <= 0\<close>; plus calls \<^verbatim>\<open>onUpdate(type, 1)\<close> and is always enabled. The list
  holds the updates a click on the card can issue.
\<close>

definition minusDisabled :: "int \<Rightarrow> bool" where
  "minusDisabled cnt = (cnt \<le> 0)"

definition stockCardUpdates :: "bloodType \<Rightarrow> int \<Rightarrow> (bloodType \<times> int) list" where
  "stockCardUpdates type cnt =
     (if minusDisabled cnt then [] else [(type, - 1)]) @ [(type, 1)]"

text \<open>
  The grid of the stock tab: one card per label of the fixed array, in that order, each
  with the props \<^verbatim>\<open>type\<close> and \<^verbatim>\<open>count\<close>.
\<close>

definition stockCards :: "inventoryRecord \<Rightarrow> (bloodType \<times> int) list" where
  "stockCards inventory = map (\<lambda>type. (type, stockCount inventory type)) bloodTypes"

section \<open>Appointments and the stores\<close>

datatype apptStatus = Scheduled | Completed | NoShow

text \<open>
  An appointment document. \<open>donatedType\<close> is the donation outcome the completion
  records; a booking carries none.
\<close>

record appointment =
  apptId :: string
  donorId :: string
  donorName :: string
  date :: string
  timeSlot :: string
  status :: apptStatus
  venueId :: string
  donatedType :: "bloodType option"

text \<open>
  The external stores as one state: the appointment documents, and the inventory document
  of each venue (keyed by the venue's user id).
\<close>

record store =
  appointmentDocs :: "appointment list"
  inventoryDocs :: "string \<rightharpoonup> inventoryRecord"

datatype error = ValidationError | InvalidStateTransition | InvalidOperation | ExternalServiceError

text \<open>
  The dashboard imports \<^verbatim>\<open>updateHospitalStock\<close>, \<^verbatim>\<open>completeAppointment\<close> and
  \<^verbatim>\<open>markAppointmentNoShow\<close> from \<^verbatim>\<open>lib/firestore\<close>, a module whose source is not
  available. The four definitions that follow stand for them and are written from the
  spec's contracts.
\<close>

text \<open>
  Modelled from the spec: the missing stock rule of \<^verbatim>\<open>lib/firestore\<close>, the contract
  \<^verbatim>\<open>applyDelta(inventory, bloodType, delta)\<close>. ``Result: new count = current + delta.
  Rejects (no mutation, signals InvalidOperation) if resulting count would be negative.''
  The current count of a label is read as the dashboard reads it (\<open>stockCount\<close>).
\<close>

definition applyDelta :: "inventoryRecord \<Rightarrow> bloodType \<Rightarrow> int \<Rightarrow> error + inventoryRecord" where
  "applyDelta inventory type delta =
     (let current = stockCount inventory type in
      if current + delta < 0 then Inl InvalidOperation
      else Inr (inventory\<lparr>bloodStock := (bloodStock inventory)(type \<mapsto> current + delta)\<rparr>))"

text \<open>
  Modelled from the spec: the missing \<^verbatim>\<open>updateHospitalStock(venueId, bloodType, delta)\<close> of
  \<^verbatim>\<open>lib/firestore\<close>. It applies the rule above to the venue's inventory document; ``on
  success, persists via the external Inventory Store and updates lastUpdated''; a failure
  leaves ``no partial state''. A venue without an inventory document is a failure of the
  store.
\<close>

definition updateHospitalStock :: "store \<Rightarrow> nat \<Rightarrow> string \<Rightarrow> bloodType \<Rightarrow> int \<Rightarrow> error + store" where
  "updateHospitalStock st now vid type delta =
     (case inventoryDocs st vid of
        None \<Rightarrow> Inl ExternalServiceError
      | Some inventory \<Rightarrow>
          (case applyDelta inventory type delta of
             Inl e \<Rightarrow> Inl e
           | Inr inventory' \<Rightarrow>
               Inr (st\<lparr>inventoryDocs := (inventoryDocs st)(vid \<mapsto> inventory'\<lparr>lastUpdated := now\<rparr>)\<rparr>)))"

text \<open>Replaces the appointment documents of one id.\<close>

definition setAppointment :: "string \<Rightarrow> (appointment \<Rightarrow> appointment) \<Rightarrow> store \<Rightarrow> store" where
  "setAppointment aid f st =
     st\<lparr>appointmentDocs := map (\<lambda>a. if apptId a = aid then f a else a) (appointmentDocs st)\<rparr>"

text \<open>
  Modelled from the spec: the missing \<^verbatim>\<open>completeAppointment\<close> of \<^verbatim>\<open>lib/firestore\<close>,
  contract A. The appointment must be \<open>scheduled\<close>: a call ``on an already-terminal
  appointment must be rejected (InvalidStateTransition)''. The confirmed blood type ``must
  be one of the 8 fixed labels and non-empty -- reject with ValidationError otherwise''.
  The effect: ``transitions appointment to completed, records the confirmed blood type as
  the donation outcome'', and increments ``the venue's inventory for that blood type by
  1''. The donor id, venue name and venue kind that the dashboard passes have no effect
  the spec describes. An id without a document is a failure of the store.
\<close>

definition completeAppointment ::
  "store \<Rightarrow> nat \<Rightarrow> string \<Rightarrow> string \<Rightarrow> bloodType \<Rightarrow> string \<Rightarrow> string \<Rightarrow> string \<Rightarrow> error + store" where
  "completeAppointment st now aid vid confirmedType did venueName venueKind =
     (case find (\<lambda>a. apptId a = aid) (appointmentDocs st) of
        None \<Rightarrow> Inl ExternalServiceError
      | Some doc \<Rightarrow>
          if status doc \<noteq> Scheduled then Inl InvalidStateTransition
          else if confirmedType = [] \<or> confirmedType \<notin> set bloodTypes then Inl ValidationError
          else (case updateHospitalStock st now vid confirmedType 1 of
                  Inl e \<Rightarrow> Inl e
                | Inr st' \<Rightarrow>
                    Inr (setAppointment aid
                           (\<lambda>a. a\<lparr>status := Completed, donatedType := Some confirmedType\<rparr>) st')))"

text \<open>
  Modelled from the spec: the missing \<^verbatim>\<open>markAppointmentNoShow\<close> of \<^verbatim>\<open>lib/firestore\<close>,
  contract B. ``Precondition: appt.status == scheduled'', else \<open>InvalidStateTransition\<close>;
  ``Effect: transitions to no-show. No inventory effect.'' An id without a document is a
  failure of the store.
\<close>

definition markAppointmentNoShow :: "store \<Rightarrow> string \<Rightarrow> error + store" where
  "markAppointmentNoShow st aid =
     (case find (\<lambda>a. apptId a = aid) (appointmentDocs st) of
        None \<Rightarrow> Inl ExternalServiceError
      | Some doc \<Rightarrow>
          if status doc \<noteq> Scheduled then Inl InvalidStateTransition
          else Inr (setAppointment aid (\<lambda>a. a\<lparr>status := NoShow\<rparr>) st))"

section \<open>The dashboard's handlers\<close>

text \<open>
  What a handler does besides calling the store: toasts, a console line carrying the
  caught error, and the reload of the appointment list.
\<close>

datatype effect =
    ToastSuccess string
  | ToastError string
  | ConsoleError string error
  | LoadAppointments

text \<open>Decimal rendering of an integer, as a template literal prints it.\<close>

function showNat :: "nat \<Rightarrow> string" where
  "showNat n = (if n < 10 then [char_of (48 + n)] else showNat (n div 10) @ [char_of (48 + n mod 10)])"
  by pat_completeness auto
termination
  by (relation "measure (\<lambda>n. n)") auto

definition showInt :: "int \<Rightarrow> string" where
  "showInt i = (if i < 0 then CHR ''-'' # showNat (nat (- i)) else showNat (nat i))"

text \<open>
  \<^verbatim>\<open>handleUpdateStock(bloodType, change)\<close>: awaits the store update for the signed-in
  venue; a success is toasted, a failure is caught, logged and toasted. The handler holds
  no inventory of its own: the inventory shown is what the store pushes.
\<close>

definition handleUpdateStock :: "store \<Rightarrow> nat \<Rightarrow> string \<Rightarrow> bloodType \<Rightarrow> int \<Rightarrow> store \<times> effect list" where
  "handleUpdateStock st now uid type change =
     (case updateHospitalStock st now uid type change of
        Inr st' \<Rightarrow>
          (st', [ToastSuccess (''Stock updated: '' @ (if change > 0 then ''+'' else []) @
                               showInt change @ '' '' @ type)])
      | Inl e \<Rightarrow> (st, [ConsoleError ''Failed to update stock'' e, ToastError ''Failed to update stock'']))"

text \<open>
  \<^verbatim>\<open>handleCompleteAppointment(appt, confirmedBloodType)\<close>: an empty selection is refused
  first; then the user is asked to confirm (\<open>confirm\<close> is the answer to the dialog text);
  then the store is called with the appointment's id, the signed-in venue, the type, the
  donor's id, the hospital's name and the kind \<^verbatim>\<open>'hospital'\<close>.
\<close>

definition handleCompleteAppointment ::
  "store \<Rightarrow> nat \<Rightarrow> string \<Rightarrow> inventoryRecord \<Rightarrow> (string \<Rightarrow> bool) \<Rightarrow> appointment \<Rightarrow> bloodType
     \<Rightarrow> store \<times> effect list" where
  "handleCompleteAppointment st now uid inventory confirm appt confirmedBloodType =
     (if confirmedBloodType = [] then (st, [ToastError ''Please select the collected blood type.''])
      else if \<not> confirm (''Confirm donation from '' @ donorName appt @ '' ('' @ confirmedBloodType @ '')?'')
        then (st, [])
      else
        (case completeAppointment st now (apptId appt) uid confirmedBloodType (donorId appt)
                (hospitalName inventory) ''hospital'' of
           Inr st' \<Rightarrow> (st', [ToastSuccess ''Donation recorded successfully!'', LoadAppointments])
         | Inl e \<Rightarrow>
             (st, [ConsoleError ''Error completing appointment:'' e,
                   ToastError ''Failed to complete appointment.''])))"

definition handleNoShow :: "store \<Rightarrow> (string \<Rightarrow> bool) \<Rightarrow> string \<Rightarrow> store \<times> effect list" where
  "handleNoShow st confirm aid =
     (if \<not> confirm ''Mark this appointment as No-Show?'' then (st, [])
      else
        (case markAppointmentNoShow st aid of
           Inr st' \<Rightarrow> (st', [ToastSuccess ''Marked as No-Show'', LoadAppointments])
         | Inl e \<Rightarrow> (st, [ToastError ''Failed to update status''])))"

text \<open>
  \<^verbatim>\<open>AppointmentCard\<close>: the action row (the type selector and the two buttons) is rendered
  only when the appointment is neither completed nor no-show. The selector starts at
  \<^verbatim>\<open>'A+'\<close> and offers the eight labels; the buttons call \<^verbatim>\<open>onComplete(appt, selectedType)\<close>
  and \<^verbatim>\<open>onNoShow(appt.id)\<close>.
\<close>

definition isCompleted :: "appointment \<Rightarrow> bool" where
  "isCompleted appt = (status appt = Completed)"

definition isNoShow :: "appointment \<Rightarrow> bool" where
  "isNoShow appt = (status appt = NoShow)"

datatype cardAction = OnComplete appointment bloodType | OnNoShow string

definition selectableTypes :: "bloodType list" where
  "selectableTypes = ''A+'' # bloodTypes"

definition appointmentCardActions :: "appointment \<Rightarrow> bloodType \<Rightarrow> cardAction list" where
  "appointmentCardActions appt selectedType =
     (if \<not> isCompleted appt \<and> \<not> isNoShow appt
      then [OnComplete appt selectedType, OnNoShow (apptId appt)]
      else [])"

section \<open>The donation schedule\<close>

text \<open>
  \<^verbatim>\<open>DonationSchedule\<close> holds the view (\<^verbatim>\<open>'active'\<close> or \<^verbatim>\<open>'past'\<close>, set by the two
  buttons) and the search text, and recomputes the listing from the appointments on every
  render.
\<close>

datatype view = Active | Past

text \<open>\<^verbatim>\<open>s.includes(t)\<close>: \<open>t\<close> occurs in \<open>s\<close> at some position.\<close>

fun startsWith :: "string \<Rightarrow> string \<Rightarrow> bool" where
  "startsWith s [] = True"
| "startsWith [] (d # t) = False"
| "startsWith (c # s) (d # t) = (c = d \<and> startsWith s t)"

fun strIncludes :: "string \<Rightarrow> string \<Rightarrow> bool" where
  "strIncludes [] t = (t = [])"
| "strIncludes (c # s) t = (startsWith (c # s) t \<or> strIncludes s t)"

text \<open>
  The two filters, in the order of the source: by view, then by donor name. The parameter
  \<open>toLowerCase\<close> stands for the platform's \<^verbatim>\<open>String.prototype.toLowerCase\<close>, whatever
  letters it lowers and however the strings are encoded.
\<close>

definition filteredAppointments :: "appointment list \<Rightarrow> view \<Rightarrow> appointment list" where
  "filteredAppointments appointments v =
     filter (\<lambda>appt. let isActive = (status appt = Scheduled) in
                     if v = Active then isActive else \<not> isActive)
       appointments"

definition displayAppointments ::
  "(string \<Rightarrow> string) \<Rightarrow> appointment list \<Rightarrow> view \<Rightarrow> string \<Rightarrow> appointment list" where
  "displayAppointments toLowerCase appointments v search =
     filter (\<lambda>appt. strIncludes (toLowerCase (donorName appt)) (toLowerCase search))
       (filteredAppointments appointments v)"

text \<open>
  The names every plain object inherits from \<^verbatim>\<open>Object.prototype\<close>: the properties of the
  language standard and of its annex for web browsers. Each of them holds a function, or an
  object in the case of \<^verbatim>\<open>__proto__\<close>: a truthy value that is not an array.
\<close>

definition objectPrototypeNames :: "string list" where
  "objectPrototypeNames =
     [''constructor'', ''hasOwnProperty'', ''isPrototypeOf'', ''propertyIsEnumerable'',
      ''toLocaleString'', ''toString'', ''valueOf'', ''__proto__'',
      ''__defineGetter__'', ''__defineSetter__'', ''__lookupGetter__'', ''__lookupSetter__'']"

text \<open>
  The \<^verbatim>\<open>reduce\<close> that groups by date, over an accumulator that starts as \<^verbatim>\<open>{}\<close>. The
  accumulator's own properties are an association list in insertion order. \<open>pushGroup\<close>
  is the step when \<^verbatim>\<open>acc[date]\<close> is undefined or an array of the accumulator's own: a date
  seen for the first time gets an empty array, then the appointment is pushed onto the
  array of its date.
\<close>

definition pushGroup ::
  "(string \<times> appointment list) list \<Rightarrow> appointment \<Rightarrow> (string \<times> appointment list) list" where
  "pushGroup acc appt =
     (let d = date appt;
          acc' = (if map_of acc d = None then acc @ [(d, [])] else acc)
      in map (\<lambda>(k, g). if k = d then (k, g @ [appt]) else (k, g)) acc')"

text \<open>
  The step as the source runs it. When the date is no own property but names an inherited
  one, \<^verbatim>\<open>!acc[date]\<close> is false, no array is made, and \<^verbatim>\<open>acc[date].push\<close> is not a
  function: the call throws a \<^verbatim>\<open>TypeError\<close>, which is the result \<open>None\<close>.
\<close>

definition groupStep ::
  "(string \<times> appointment list) list \<Rightarrow> appointment \<Rightarrow> (string \<times> appointment list) list option" where
  "groupStep acc appt =
     (if map_of acc (date appt) = None \<and> date appt \<in> set objectPrototypeNames then None
      else Some (pushGroup acc appt))"

fun groupAll ::
  "(string \<times> appointment list) list \<Rightarrow> appointment list \<Rightarrow> (string \<times> appointment list) list option" where
  "groupAll acc [] = Some acc"
| "groupAll acc (appt # appts) =
     (case groupStep acc appt of
        None \<Rightarrow> None
      | Some acc' \<Rightarrow> groupAll acc' appts)"

definition grouped :: "appointment list \<Rightarrow> (string \<times> appointment list) list option" where
  "grouped display = groupAll [] display"

text \<open>
  \<^verbatim>\<open>Object.keys(grouped).sort()\<close>: the default sort compares strings code unit by code
  unit, which is the lexicographic order of the character codes.
\<close>

definition sortedDates :: "(string \<times> appointment list) list \<Rightarrow> string list" where
  "sortedDates g = sort (map fst g)"

text \<open>
  The rendered list: one block per sorted date, holding \<^verbatim>\<open>grouped[date]\<close>. Reading a date
  that is no key would make \<^verbatim>\<open>grouped[date].map\<close> throw; that is the result \<open>None\<close>.
\<close>

fun renderGroups ::
  "(string \<times> appointment list) list \<Rightarrow> string list \<Rightarrow> (string \<times> appointment list) list option" where
  "renderGroups g [] = Some []"
| "renderGroups g (d # ds) =
     (case map_of g d of
        None \<Rightarrow> None
      | Some appts \<Rightarrow>
          (case renderGroups g ds of
             None \<Rightarrow> None
           | Some blocks \<Rightarrow> Some ((d, appts) # blocks)))"

text \<open>
  The whole projection: \<open>None\<close> when the render throws, else the blocks in display order.
\<close>

definition viewAppointments ::
  "(string \<Rightarrow> string) \<Rightarrow> appointment list \<Rightarrow> view \<Rightarrow> string
     \<Rightarrow> (string \<times> appointment list) list option" where
  "viewAppointments toLowerCase appointments v search =
     (case grouped (displayAppointments toLowerCase appointments v search) of
        None \<Rightarrow> None
      | Some g \<Rightarrow> renderGroups g (sortedDates g))"

text \<open>
  The reading of ``contains the term as a case-insensitive substring'' that the listing is
  compared with: once both are lowered, the term occurs in the name.
\<close>

definition containsIgnoringCase :: "(string \<Rightarrow> string) \<Rightarrow> string \<Rightarrow> string \<Rightarrow> bool" where
  "containsIgnoringCase toLowerCase name needle =
     (\<exists>before after. toLowerCase name = before @ toLowerCase needle @ after)"

text \<open>
  What each view is to select, in the spec's words: the active view the scheduled
  appointments, the past view the completed and the no-show ones.
\<close>

definition viewSelects :: "view \<Rightarrow> appointment \<Rightarrow> bool" where
  "viewSelects v appt =
     (case v of Active \<Rightarrow> status appt = Scheduled
              | Past \<Rightarrow> status appt = Completed \<or> status appt = NoShow)"

text \<open>
  A lowering to run the listing with: \<^verbatim>\<open>toLowerCase\<close> on strings whose characters are the
  code units below 256 (Basic Latin and Latin-1 Supplement). There it works unit by unit:
  \<^verbatim>\<open>A\<close> to \<^verbatim>\<open>Z\<close> (65 to 90) and the capitals 192 to 214 and 216 to 222 move up by 32;
  every other unit is kept.
\<close>

definition latin1LowerUnit :: "char \<Rightarrow> char" where
  "latin1LowerUnit c =
     (let n = (of_char c :: nat) in
      if (65 \<le> n \<and> n \<le> 90) \<or> (192 \<le> n \<and> n \<le> 214) \<or> (216 \<le> n \<and> n \<le> 222)
      then char_of (n + 32) else c)"

definition latin1LowerCase :: "string \<Rightarrow> string" where
  "latin1LowerCase s = map latin1LowerUnit s"

section \<open>The organizer portal\<close>

text \<open>
  Coordinates are a pair of numbers. The numbers are only stored, passed on and printed
  here, so their type is left open (\<open>'n\<close>).
\<close>

record 'n coordinates =
  lat :: 'n
  lng :: 'n

text \<open>
  A donation camp, as \<^verbatim>\<open>handleAddCamp\<close> submits it and as the list shows it. The form's
  state variables \<^verbatim>\<open>campName\<close>, \<^verbatim>\<open>organizerName\<close>, \<^verbatim>\<open>contact\<close>, \<^verbatim>\<open>address\<close>,
  \<^verbatim>\<open>date\<close>, \<^verbatim>\<open>startTime\<close>, \<^verbatim>\<open>endTime\<close> and \<^verbatim>\<open>coordinates\<close> are the fields of one
  such record (\<open>location\<close> is the \<^verbatim>\<open>coordinates\<close> state).
\<close>

record 'n camp =
  campName :: string
  organizerName :: string
  contact :: string
  campAddress :: string
  campDate :: string
  startTime :: string
  endTime :: string
  location :: "'n coordinates"

record 'n portal =
  camps :: "'n camp list"
  loading :: bool
  form :: "'n camp"
  message :: string

text \<open>
  \<^verbatim>\<open>Array.prototype.sort\<close> with a comparator. The sort is stable, and an element moves
  behind another only when the comparator is positive on the pair; a comparator value of
  \<^verbatim>\<open>NaN\<close> (\<open>None\<close>) counts as 0. For a comparator that orders the elements consistently
  this insertion computes the one result the language allows.
\<close>

fun insertBy :: "('a \<Rightarrow> 'a \<Rightarrow> int option) \<Rightarrow> 'a \<Rightarrow> 'a list \<Rightarrow> 'a list" where
  "insertBy cmp x [] = [x]"
| "insertBy cmp x (y # ys) =
     (case cmp x y of
        None \<Rightarrow> x # y # ys
      | Some v \<Rightarrow> if v > 0 then y # insertBy cmp x ys else x # y # ys)"

definition sortWith :: "('a \<Rightarrow> 'a \<Rightarrow> int option) \<Rightarrow> 'a list \<Rightarrow> 'a list" where
  "sortWith cmp xs = foldr (insertBy cmp) xs []"

text \<open>
  \<^verbatim>\<open>(a, b) => new Date(a.date) - new Date(b.date)\<close>. \<open>dateValue\<close> stands for the
  platform's \<^verbatim>\<open>Date\<close>: the time value of a date string, or \<open>None\<close> for an invalid
  date, whose difference with anything is \<^verbatim>\<open>NaN\<close>.
\<close>

definition compareDates :: "(string \<Rightarrow> int option) \<Rightarrow> 'n camp \<Rightarrow> 'n camp \<Rightarrow> int option" where
  "compareDates dateValue a b =
     (case dateValue (campDate a) of
        None \<Rightarrow> None
      | Some s \<Rightarrow> (case dateValue (campDate b) of None \<Rightarrow> None | Some t \<Rightarrow> Some (s - t)))"

text \<open>
  The projection inside \<^verbatim>\<open>loadCamps\<close>: keep the camps with \<^verbatim>\<open>camp.date >= today\<close>
  (a comparison of strings), then sort with the comparator above.
\<close>

definition upcomingCamps :: "(string \<Rightarrow> int option) \<Rightarrow> 'n camp list \<Rightarrow> string \<Rightarrow> 'n camp list" where
  "upcomingCamps dateValue data today =
     sortWith (compareDates dateValue) (filter (\<lambda>camp. today \<le> campDate camp) data)"

text \<open>
  \<^verbatim>\<open>loadCamps\<close>: \<open>fetched\<close> is what \<^verbatim>\<open>getDonationCamps\<close> answers and \<open>today\<close> the date
  part of the current instant in ISO form; a failure is logged and leaves the list as it is.
\<close>

definition loadCamps ::
  "(string \<Rightarrow> int option) \<Rightarrow> error + 'n camp list \<Rightarrow> string \<Rightarrow> 'n portal \<Rightarrow> 'n portal" where
  "loadCamps dateValue fetched today p =
     (case fetched of
        Inr data \<Rightarrow> p\<lparr>camps := upcomingCamps dateValue data today\<rparr>
      | Inl e \<Rightarrow> p)"

text \<open>
  When the date values order a list of dates as the strings themselves are ordered, as is
  the case for calendar dates written \<^verbatim>\<open>YYYY-MM-DD\<close>.
\<close>

definition datesChronological :: "(string \<Rightarrow> int option) \<Rightarrow> string list \<Rightarrow> bool" where
  "datesChronological dateValue ds =
     (\<forall>x\<in>set ds. \<forall>y\<in>set ds.
        \<exists>s t. dateValue x = Some s \<and> dateValue y = Some t \<and> (x < y \<longleftrightarrow> s < t))"

text \<open>
  The time value that \<^verbatim>\<open>Date\<close> gives a calendar date written \<^verbatim>\<open>YYYY-MM-DD\<close>, the form
  the date input of the camp form produces: midnight UTC of that day, in milliseconds since
  1 January 1970. A string of any other form, or naming no day of the calendar, has no value
  here (\<open>None\<close>).
\<close>

definition digitValue :: "char \<Rightarrow> nat option" where
  "digitValue c = (let n = (of_char c :: nat) in if 48 \<le> n \<and> n \<le> 57 then Some (n - 48) else None)"

fun digitsValue :: "string \<Rightarrow> nat option" where
  "digitsValue [] = Some 0"
| "digitsValue (c # cs) =
     (case digitValue c of
        None \<Rightarrow> None
      | Some d \<Rightarrow> (case digitsValue cs of None \<Rightarrow> None | Some v \<Rightarrow> Some (d * 10 ^ length cs + v)))"

definition isLeapYear :: "nat \<Rightarrow> bool" where
  "isLeapYear y = (y mod 4 = 0 \<and> (y mod 100 \<noteq> 0 \<or> y mod 400 = 0))"

definition daysInMonth :: "nat \<Rightarrow> nat \<Rightarrow> nat" where
  "daysInMonth y m =
     (if m = 2 then (if isLeapYear y then 29 else 28)
      else if m = 4 \<or> m = 6 \<or> m = 9 \<or> m = 11 then 30 else 31)"

definition daysBeforeMonth :: "nat \<Rightarrow> nat \<Rightarrow> nat" where
  "daysBeforeMonth y m = sum_list (map (daysInMonth y) [1..<m])"

definition daysBeforeYear :: "nat \<Rightarrow> int" where
  "daysBeforeYear y =
     365 * int y +
     (if y = 0 then 0
      else 1 + int ((y - 1) div 4) - int ((y - 1) div 100) + int ((y - 1) div 400))"

definition isoDate :: "string \<Rightarrow> (nat \<times> nat \<times> nat) option" where
  "isoDate s =
     (if length s = 10 \<and> s ! 4 = CHR ''-'' \<and> s ! 7 = CHR ''-'' then
        (case digitsValue (take 4 s) of
           None \<Rightarrow> None
         | Some y \<Rightarrow>
             (case digitsValue (take 2 (drop 5 s)) of
                None \<Rightarrow> None
              | Some m \<Rightarrow>
                  (case digitsValue (drop 8 s) of
                     None \<Rightarrow> None
                   | Some d \<Rightarrow>
                       if 1 \<le> m \<and> m \<le> 12 \<and> 1 \<le> d \<and> d \<le> daysInMonth y m
                       then Some (y, m, d) else None)))
      else None)"

definition dayNumber :: "nat \<times> nat \<times> nat \<Rightarrow> int" where
  "dayNumber ymd =
     (case ymd of (y, m, d) \<Rightarrow> daysBeforeYear y + int (daysBeforeMonth y m) + int d - 1 - 719528)"

definition isoDateValue :: "string \<Rightarrow> int option" where
  "isoDateValue s = map_option (\<lambda>ymd. 86400000 * dayNumber ymd) (isoDate s)"

definition yearLength :: "nat \<Rightarrow> nat" where
  "yearLength y = (if isLeapYear y then 366 else 365)"

definition validDate :: "nat \<times> nat \<times> nat \<Rightarrow> bool" where
  "validDate ymd = (case ymd of (y, m, d) \<Rightarrow> 1 \<le> m \<and> m \<le> 12 \<and> 1 \<le> d \<and> d \<le> daysInMonth y m)"

text \<open>
  \<^verbatim>\<open>handleLocationSelect\<close>: the coordinates are always taken over; the address only when
  the location carries a non-empty one.
\<close>

record 'n locationData =
  locLat :: 'n
  locLng :: 'n
  locAddress :: string

definition handleLocationSelect :: "'n locationData \<Rightarrow> 'n portal \<Rightarrow> 'n portal" where
  "handleLocationSelect loc p =
     p\<lparr>form := (form p)
          \<lparr>location := \<lparr>lat = locLat loc, lng = locLng loc\<rparr>,
           campAddress := (if locAddress loc \<noteq> [] then locAddress loc else campAddress (form p))\<rparr>\<rparr>"

text \<open>
  \<^verbatim>\<open>handleAddCamp\<close>: the store's \<^verbatim>\<open>addDonationCamp\<close> is a parameter, called with the
  signed-in user and the record built from the form. On success the message is set, the seven text fields are set to the empty
  string, the list is reloaded and the message is cleared three seconds later; on failure
  the error is logged and the error message set. Either way loading ends.
\<close>

datatype portalEffect = LogError string error | ReloadCamps | ClearMessageAfter nat

definition handleAddCamp :: "(string \<Rightarrow> 'n camp \<Rightarrow> error + unit) \<Rightarrow> string \<Rightarrow> 'n portal
    \<Rightarrow> 'n portal \<times> portalEffect list" where
  "handleAddCamp addDonationCamp uid p =
     (case addDonationCamp uid (form p) of
        Inr _ \<Rightarrow>
          (p\<lparr>message := ''Donation camp added successfully!'',
             form := (form p)\<lparr>campName := [], organizerName := [], contact := [],
                               campAddress := [], campDate := [], startTime := [], endTime := []\<rparr>,
             loading := False\<rparr>,
           [ReloadCamps, ClearMessageAfter 3000])
      | Inl e \<Rightarrow>
          (p\<lparr>message := ''Error adding camp. Please try again.'', loading := False\<rparr>,
           [LogError ''Error adding camp:'' e]))"

section \<open>The location picker\<close>

text \<open>
  The picker's own state: the marker position and the address shown in the overlay.
\<close>

record 'n picker =
  position :: "'n coordinates"
  shownAddress :: string

text \<open>
  What the reverse lookup yields: the request or the decoding of its body fails (\<open>Inl\<close>),
  or there is a body, which is \<^verbatim>\<open>null\<close> (\<open>NoData\<close>) or an object whose
  \<^verbatim>\<open>display_name\<close> may be missing.
\<close>

datatype geoData = NoData | Data "string option"

text \<open>
  \<^verbatim>\<open>fetchAddress(lat, lng)\<close>. \<open>numberToString\<close> is how a template literal prints a number.
  The result is the picker's new state, the one location handed to \<^verbatim>\<open>onLocationSelect\<close>,
  and the console line of the \<^verbatim>\<open>catch\<close> branch if any.
\<close>

definition coordinateLabel :: "('n \<Rightarrow> string) \<Rightarrow> 'n \<Rightarrow> 'n \<Rightarrow> string" where
  "coordinateLabel numberToString la lo = numberToString la @ '', '' @ numberToString lo"

definition fetchAddress ::
  "('n \<Rightarrow> string) \<Rightarrow> error + geoData \<Rightarrow> 'n \<Rightarrow> 'n \<Rightarrow> 'n picker
     \<Rightarrow> 'n picker \<times> 'n locationData \<times> portalEffect list" where
  "fetchAddress numberToString response la lo pk =
     (case response of
        Inr (Data (Some display_name)) \<Rightarrow>
          if display_name \<noteq> []
          then (pk\<lparr>shownAddress := display_name\<rparr>,
                \<lparr>locLat = la, locLng = lo, locAddress = display_name\<rparr>, [])
          else (pk, \<lparr>locLat = la, locLng = lo, locAddress = coordinateLabel numberToString la lo\<rparr>, [])
      | Inr _ \<Rightarrow>
          (pk, \<lparr>locLat = la, locLng = lo, locAddress = coordinateLabel numberToString la lo\<rparr>, [])
      | Inl e \<Rightarrow>
          (pk, \<lparr>locLat = la, locLng = lo, locAddress = coordinateLabel numberToString la lo\<rparr>,
           [LogError ''Error fetching address:'' e]))"

text \<open>
  A click on the map or the end of a drag: the marker moves, then the address is fetched
  for the new position, and the portal takes the location over.
\<close>

definition selectOnMap ::
  "('n \<Rightarrow> string) \<Rightarrow> error + geoData \<Rightarrow> 'n coordinates \<Rightarrow> 'n picker \<Rightarrow> 'n portal
     \<Rightarrow> 'n picker \<times> 'n portal" where
  "selectOnMap numberToString response newPos pk p =
     (case fetchAddress numberToString response (lat newPos) (lng newPos) (pk\<lparr>position := newPos\<rparr>) of
        (pk', loc, log) \<Rightarrow> (pk', handleLocationSelect loc p))"

section \<open>Sample data\<close>

text \<open>Concrete values on which the properties below are exercised.\<close>

definition sampleInventory :: inventoryRecord where
  "sampleInventory =
     \<lparr>hospitalName = ''General'', hospitalAddress = ''1 Main St'',
      bloodStock = [''A+'' \<mapsto> 3, ''O+'' \<mapsto> 9], lastUpdated = 0\<rparr>"

definition sampleAppointment :: "string \<Rightarrow> string \<Rightarrow> string \<Rightarrow> apptStatus \<Rightarrow> appointment" where
  "sampleAppointment aid name day s =
     \<lparr>apptId = aid, donorId = ''d-'' @ aid, donorName = name, date = day,
      timeSlot = ''09:00 - 10:00'', status = s, venueId = ''hosp1'', donatedType = None\<rparr>"

definition sampleStore :: store where
  "sampleStore =
     \<lparr>appointmentDocs =
        [sampleAppointment ''a1'' ''Jane Doe'' ''2024-06-02'' Scheduled,
         sampleAppointment ''a2'' ''John Roe'' ''2024-06-01'' Completed,
         sampleAppointment ''a3'' ''Mary Janeway'' ''2024-06-01'' NoShow],
      inventoryDocs = [''hosp1'' \<mapsto> sampleInventory]\<rparr>"

definition sampleAppointments :: "appointment list" where
  "sampleAppointments =
     [sampleAppointment ''a1'' ''Jane Doe'' ''2024-06-02'' Scheduled,
      sampleAppointment ''a2'' ''John Roe'' ''2024-06-01'' Completed,
      sampleAppointment ''a3'' ''Mary JANEWAY'' ''2024-06-01'' NoShow,
      sampleAppointment ''a4'' ''Al Jones'' ''2024-05-30'' Scheduled,
      sampleAppointment ''a5'' ''Bo Lee'' ''2024-06-02'' Scheduled,
      sampleAppointment ''a6'' ''janet Poe'' ''2024-05-30'' Completed]"


definition sampleCamp :: "string \<Rightarrow> string \<Rightarrow> int camp" where
  "sampleCamp name day =
     \<lparr>campName = name, organizerName = ''Red Cross'', contact = ''555-0100'',
      campAddress = ''12 Park Lane'', campDate = day, startTime = ''09:00'', endTime = ''17:00'',
      location = \<lparr>lat = 40, lng = - 74\<rparr>\<rparr>"

definition sampleCamps :: "int camp list" where
  "sampleCamps =
     [sampleCamp ''North'' ''2024-07-15'',
      sampleCamp ''Old'' ''2024-05-30'',
      sampleCamp ''Today'' ''2024-06-01'',
      sampleCamp ''South'' ''2024-06-01'']"

definition samplePortal :: "int portal" where
  "samplePortal =
     \<lparr>camps = [], loading = True,
      form = \<lparr>campName = ''West'', organizerName = ''Red Cross'', contact = ''555-0100'',
              campAddress = ''3 Elm St'', campDate = ''2024-08-01'', startTime = ''10:00'',
              endTime = ''16:00'', location = \<lparr>lat = 12, lng = 77\<rparr>\<rparr>,
      message = []\<rparr>"

chapter \<open>Properties\<close>

section \<open>Stock severity\<close>

lemma stockStatus_caption:
  "stockCaption cnt =
     (case stockStatus cnt of
        Critical \<Rightarrow> ''OUT OF STOCK'' | Low \<Rightarrow> ''LOW STOCK'' | Normal \<Rightarrow> ''Units Available'')"
  by (simp add: stockCaption_def stockStatus_def)

text \<open>
  Counts are integers here, so the card can be asked about a negative one, which no
  inventory that respects the invariant holds: it would read as low, being below 5 and
  not 0.
\<close>

lemma negative_count_reads_low: "cnt < 0 \<Longrightarrow> stockStatus cnt = Low"
  by (simp add: stockStatus_def isCritical_def isLow_def)

text \<open>
  Claim C3. The severity shown by the stock card depends on the count alone: it is critical
  exactly when the count is 0 and normal exactly when the count is at least 5; for a
  non-negative count (the only counts an inventory holds) it is low exactly when
  \<open>0 < count < 5\<close>. At the boundary, 4 is low and 5 is normal.
\<close>

theorem stockStatus_bands:
  "(stockStatus cnt = Critical \<longleftrightarrow> cnt = 0) \<and>
   (stockStatus cnt = Normal \<longleftrightarrow> 5 \<le> cnt) \<and>
   (0 \<le> cnt \<longrightarrow> (stockStatus cnt = Low \<longleftrightarrow> 0 < cnt \<and> cnt < 5)) \<and>
   stockStatus 4 = Low \<and> stockStatus 5 = Normal"
  by (simp add: stockStatus_def isCritical_def isLow_def)

theorem stockStatus_bands_witness:
  "(stockStatus 0 = Critical) \<and> (stockStatus 3 = Low) \<and> (stockStatus 7 = Normal) \<and>
   (stockStatus 3 \<noteq> Critical) \<and> (stockStatus 3 \<noteq> Normal)"
  using stockStatus_bands [of 3] stockStatus_bands [of 0] stockStatus_bands [of 7]
  by simp

section \<open>Absent stock keys\<close>

lemma stockCards_labels: "map fst (stockCards inventory) = bloodTypes"
  by (simp add: stockCards_def comp_def)

text \<open>
  Claim C9. A label of the fixed array that is not a key of \<open>bloodStock\<close> still gets
  its card: the grid has one card per label, the card of the absent label carries count 0,
  and count 0 is shown as critical.
\<close>

theorem absent_label_is_zero_and_critical:
  assumes "type \<in> set bloodTypes" and "bloodStock inventory type = None"
  shows "map fst (stockCards inventory) = bloodTypes \<and>
         (type, 0) \<in> set (stockCards inventory) \<and>
         stockCount inventory type = 0 \<and>
         stockStatus (stockCount inventory type) = Critical"
proof -
  have zero: "stockCount inventory type = 0"
    using assms(2) by (simp add: stockCount_def)
  have "(type, stockCount inventory type) \<in> set (stockCards inventory)"
    using assms(1) by (auto simp: stockCards_def)
  with zero have card: "(type, 0) \<in> set (stockCards inventory)"
    by simp
  have "stockStatus 0 = Critical"
    by (simp add: stockStatus_def isCritical_def)
  with zero card show ?thesis
    by (simp add: stockCards_labels)
qed

theorem absent_label_is_zero_and_critical_witness:
  "(''AB-'', 0) \<in> set (stockCards sampleInventory) \<and>
   stockStatus (stockCount sampleInventory ''AB-'') = Critical"
proof -
  have label: "''AB-'' \<in> set bloodTypes"
    by (simp add: bloodTypes_def)
  have absent: "bloodStock sampleInventory ''AB-'' = None"
    by (simp add: sampleInventory_def)
  from absent_label_is_zero_and_critical [OF label absent] show ?thesis
    by blast
qed

section \<open>Stock updates\<close>

lemma applyDelta_rejects:
  "stockCount inventory type + delta < 0 \<Longrightarrow> applyDelta inventory type delta = Inl InvalidOperation"
  by (simp add: applyDelta_def)

lemma applyDelta_adds:
  assumes "\<not> stockCount inventory type + delta < 0"
  shows "\<exists>inventory'. applyDelta inventory type delta = Inr inventory' \<and>
           bloodStock inventory' type = Some (stockCount inventory type + delta) \<and>
           stockCount inventory' type = stockCount inventory type + delta"
  using assms by (simp add: applyDelta_def stockCount_def)

lemma stockCard_updates_stay_non_negative:
  assumes "(t, d) \<in> set (stockCardUpdates type c)" and "0 \<le> c"
  shows "t = type \<and> 0 \<le> c + d"
  using assms by (auto simp: stockCardUpdates_def minusDisabled_def split: if_splits)

text \<open>
  Claim C1. For a venue whose inventory holds the non-negative count \<open>c\<close> of a blood
  type, a stock update by \<open>delta\<close> is rejected when \<open>c + delta < 0\<close>, and the handler
  then leaves the store as it was; otherwise the update goes through and the count of that
  type is exactly \<open>c + delta\<close> afterwards.
\<close>

theorem stock_update_rejects_or_adds:
  assumes "inventoryDocs st uid = Some inventory"
      and "stockCount inventory type = c"
      and "0 \<le> c"
  shows "(c + delta < 0 \<longrightarrow>
            updateHospitalStock st now uid type delta = Inl InvalidOperation \<and>
            fst (handleUpdateStock st now uid type delta) = st) \<and>
         (\<not> c + delta < 0 \<longrightarrow>
            (\<exists>st' inventory'.
               updateHospitalStock st now uid type delta = Inr st' \<and>
               fst (handleUpdateStock st now uid type delta) = st' \<and>
               inventoryDocs st' uid = Some inventory' \<and>
               bloodStock inventory' type = Some (c + delta) \<and>
               stockCount inventory' type = c + delta))"
proof (intro conjI impI)
  assume neg: "c + delta < 0"
  then have "applyDelta inventory type delta = Inl InvalidOperation"
    using assms(2) by (simp add: applyDelta_rejects)
  then show "updateHospitalStock st now uid type delta = Inl InvalidOperation"
    using assms(1) by (simp add: updateHospitalStock_def)
  then show "fst (handleUpdateStock st now uid type delta) = st"
    by (simp add: handleUpdateStock_def)
next
  assume ok: "\<not> c + delta < 0"
  then obtain inventory' where
    inv': "applyDelta inventory type delta = Inr inventory'"
      "bloodStock inventory' type = Some (c + delta)"
      "stockCount inventory' type = c + delta"
    using applyDelta_adds [of inventory type delta] assms(2) by auto
  let ?st' = "st\<lparr>inventoryDocs := (inventoryDocs st)(uid \<mapsto> inventory'\<lparr>lastUpdated := now\<rparr>)\<rparr>"
  have upd: "updateHospitalStock st now uid type delta = Inr ?st'"
    using assms(1) inv'(1) by (simp add: updateHospitalStock_def)
  have "fst (handleUpdateStock st now uid type delta) = ?st'"
    using upd by (simp add: handleUpdateStock_def)
  moreover have "inventoryDocs ?st' uid = Some (inventory'\<lparr>lastUpdated := now\<rparr>)"
    by simp
  moreover have "bloodStock (inventory'\<lparr>lastUpdated := now\<rparr>) type = Some (c + delta)"
    using inv'(2) by simp
  moreover have "stockCount (inventory'\<lparr>lastUpdated := now\<rparr>) type = c + delta"
    using inv'(3) by (simp add: stockCount_def)
  ultimately show "\<exists>st' inventory'.
               updateHospitalStock st now uid type delta = Inr st' \<and>
               fst (handleUpdateStock st now uid type delta) = st' \<and>
               inventoryDocs st' uid = Some inventory' \<and>
               bloodStock inventory' type = Some (c + delta) \<and>
               stockCount inventory' type = c + delta"
    using upd by blast
qed

theorem stock_update_rejects_or_adds_witness:
  "updateHospitalStock sampleStore 7 ''hosp1'' ''A+'' (- 4) = Inl InvalidOperation \<and>
   fst (handleUpdateStock sampleStore 7 ''hosp1'' ''A+'' (- 4)) = sampleStore \<and>
   (\<exists>st' inventory'.
      fst (handleUpdateStock sampleStore 7 ''hosp1'' ''A+'' (- 3)) = st' \<and>
      inventoryDocs st' ''hosp1'' = Some inventory' \<and>
      stockCount inventory' ''A+'' = 0)"
proof -
  have doc: "inventoryDocs sampleStore ''hosp1'' = Some sampleInventory"
    by (simp add: sampleStore_def)
  have cnt: "stockCount sampleInventory ''A+'' = 3"
    by (simp add: sampleInventory_def stockCount_def)
  have nonneg: "(0::int) \<le> 3"
    by simp
  from stock_update_rejects_or_adds [OF doc cnt nonneg, of "- 4" 7]
       stock_update_rejects_or_adds [OF doc cnt nonneg, of "- 3" 7]
  show ?thesis
    by auto
qed

section \<open>Completing a scheduled appointment\<close>

text \<open>
  On a scheduled appointment with one of the eight labels the completion goes through: the
  appointment becomes completed with the confirmed type recorded, every other appointment
  is kept, and the venue's count of that type grows by exactly one.
\<close>

lemma updateHospitalStock_adds:
  assumes "inventoryDocs st vid = Some inventory"
      and "\<not> stockCount inventory type + delta < 0"
  shows "\<exists>inventory'.
           updateHospitalStock st now vid type delta =
             Inr (st\<lparr>inventoryDocs := (inventoryDocs st)(vid \<mapsto> inventory')\<rparr>) \<and>
           stockCount inventory' type = stockCount inventory type + delta"
proof -
  from applyDelta_adds [OF assms(2)] obtain inventory' where
    a: "applyDelta inventory type delta = Inr inventory'" and
    c: "stockCount inventory' type = stockCount inventory type + delta"
    by blast
  have "updateHospitalStock st now vid type delta =
          Inr (st\<lparr>inventoryDocs := (inventoryDocs st)(vid \<mapsto> inventory'\<lparr>lastUpdated := now\<rparr>)\<rparr>)"
    using assms(1) a by (simp add: updateHospitalStock_def)
  moreover have "stockCount (inventory'\<lparr>lastUpdated := now\<rparr>) type = stockCount inventory type + delta"
    using c by (simp add: stockCount_def)
  ultimately show ?thesis
    by blast
qed

lemma completeAppointment_scheduled:
  assumes doc: "find (\<lambda>a. apptId a = aid) (appointmentDocs st) = Some doc"
      and scheduled: "status doc = Scheduled"
      and label: "bt \<in> set bloodTypes"
      and inv: "inventoryDocs st vid = Some inventory"
      and nonneg: "0 \<le> stockCount inventory bt"
  shows "\<exists>st' inventory'.
           completeAppointment st now aid vid bt did vname vkind = Inr st' \<and>
           inventoryDocs st' vid = Some inventory' \<and>
           stockCount inventory' bt = stockCount inventory bt + 1 \<and>
           map apptId (appointmentDocs st') = map apptId (appointmentDocs st) \<and>
           (\<forall>a \<in> set (appointmentDocs st').
              if apptId a = aid then status a = Completed \<and> donatedType a = Some bt
              else a \<in> set (appointmentDocs st))"
proof -
  from nonneg have "\<not> stockCount inventory bt + 1 < 0"
    by simp
  from updateHospitalStock_adds [OF inv this, of now] obtain inventory' where
    u: "updateHospitalStock st now vid bt 1 =
          Inr (st\<lparr>inventoryDocs := (inventoryDocs st)(vid \<mapsto> inventory')\<rparr>)" and
    c: "stockCount inventory' bt = stockCount inventory bt + 1"
    by blast
  let ?st' = "setAppointment aid (\<lambda>a. a\<lparr>status := Completed, donatedType := Some bt\<rparr>)
                (st\<lparr>inventoryDocs := (inventoryDocs st)(vid \<mapsto> inventory')\<rparr>)"
  from label have "bt \<noteq> []"
    by (auto simp: bloodTypes_def)
  with doc scheduled label u
  have "completeAppointment st now aid vid bt did vname vkind = Inr ?st'"
    by (simp add: completeAppointment_def)
  moreover have "inventoryDocs ?st' vid = Some inventory'"
    by (simp add: setAppointment_def)
  moreover have "map apptId (appointmentDocs ?st') = map apptId (appointmentDocs st)"
    by (simp add: setAppointment_def comp_def)
  moreover have "\<forall>a \<in> set (appointmentDocs ?st').
              if apptId a = aid then status a = Completed \<and> donatedType a = Some bt
              else a \<in> set (appointmentDocs st)"
    by (auto simp: setAppointment_def)
  ultimately show ?thesis
    using c by blast
qed

lemma completeAppointment_example:
  "\<exists>st' inventory'.
     completeAppointment sampleStore 7 ''a1'' ''hosp1'' ''O+'' ''d-a1'' ''General'' ''hospital'' = Inr st' \<and>
     inventoryDocs st' ''hosp1'' = Some inventory' \<and>
     stockCount inventory' ''O+'' = 10 \<and>
     map status (appointmentDocs st') = [Completed, Completed, NoShow]"
proof -
  have "completeAppointment sampleStore 7 ''a1'' ''hosp1'' ''O+'' ''d-a1'' ''General'' ''hospital'' =
    Inr (setAppointment ''a1'' (\<lambda>a. a\<lparr>status := Completed, donatedType := Some ''O+''\<rparr>)
          (sampleStore\<lparr>inventoryDocs := (inventoryDocs sampleStore)
             (''hosp1'' \<mapsto> sampleInventory\<lparr>bloodStock := (bloodStock sampleInventory)(''O+'' \<mapsto> 10),
                                           lastUpdated := 7\<rparr>)\<rparr>))"
    by (simp add: completeAppointment_def updateHospitalStock_def applyDelta_def stockCount_def
          sampleStore_def sampleAppointment_def sampleInventory_def bloodTypes_def)
  then show ?thesis
    by (simp add: setAppointment_def stockCount_def sampleStore_def sampleAppointment_def)
qed

section \<open>Terminal appointments\<close>

lemma completeAppointment_terminal:
  assumes "find (\<lambda>a. apptId a = aid) (appointmentDocs st) = Some doc"
      and "status doc \<noteq> Scheduled"
  shows "completeAppointment st now aid vid bt did vname vkind = Inl InvalidStateTransition"
  using assms by (simp add: completeAppointment_def)

lemma markAppointmentNoShow_terminal:
  assumes "find (\<lambda>a. apptId a = aid) (appointmentDocs st) = Some doc"
      and "status doc \<noteq> Scheduled"
  shows "markAppointmentNoShow st aid = Inl InvalidStateTransition"
  using assms by (simp add: markAppointmentNoShow_def)

lemma handleCompleteAppointment_rejected:
  assumes "completeAppointment st now (apptId appt) uid bt (donorId appt) (hospitalName inventory) ''hospital'' = Inl e"
  shows "fst (handleCompleteAppointment st now uid inventory confirm appt bt) = st \<and>
         (\<forall>m. ToastSuccess m \<notin> set (snd (handleCompleteAppointment st now uid inventory confirm appt bt)))"
  using assms by (simp add: handleCompleteAppointment_def)

lemma handleNoShow_rejected:
  assumes "markAppointmentNoShow st aid = Inl e"
  shows "fst (handleNoShow st confirm aid) = st \<and>
         (\<forall>m. ToastSuccess m \<notin> set (snd (handleNoShow st confirm aid)))"
  using assms by (simp add: handleNoShow_def)

lemma appointmentCardActions_terminal:
  "status doc \<noteq> Scheduled \<Longrightarrow> appointmentCardActions doc selectedType = []"
  by (cases "status doc") (simp_all add: appointmentCardActions_def isCompleted_def isNoShow_def)

text \<open>
  Claim C2. For an appointment whose stored status is completed or no-show, both store
  operations answer \<open>InvalidStateTransition\<close>. Whatever the selected type and whatever the
  user answers in the confirmation dialog, neither handler changes the store (appointments
  and inventories alike) and neither reports success; and the card of such an appointment
  offers no action at all.
\<close>

theorem terminal_appointment_rejected:
  assumes "find (\<lambda>a. apptId a = apptId appt) (appointmentDocs st) = Some doc"
      and "status doc = Completed \<or> status doc = NoShow"
  shows "completeAppointment st now (apptId appt) uid bt (donorId appt) (hospitalName inventory) ''hospital''
           = Inl InvalidStateTransition \<and>
         markAppointmentNoShow st (apptId appt) = Inl InvalidStateTransition \<and>
         fst (handleCompleteAppointment st now uid inventory confirm appt bt) = st \<and>
         fst (handleNoShow st confirm (apptId appt)) = st \<and>
         (\<forall>m. ToastSuccess m \<notin> set (snd (handleCompleteAppointment st now uid inventory confirm appt bt))) \<and>
         (\<forall>m. ToastSuccess m \<notin> set (snd (handleNoShow st confirm (apptId appt)))) \<and>
         appointmentCardActions doc selectedType = []"
proof -
  from assms(2) have terminal: "status doc \<noteq> Scheduled"
    by auto
  note c = completeAppointment_terminal [OF assms(1) terminal, of now uid bt "donorId appt" "hospitalName inventory" "''hospital''"]
  note n = markAppointmentNoShow_terminal [OF assms(1) terminal]
  from c n handleCompleteAppointment_rejected [OF c, of confirm] handleNoShow_rejected [OF n, of confirm]
       appointmentCardActions_terminal [OF terminal, of selectedType]
  show ?thesis
    by simp
qed

theorem terminal_appointment_rejected_witness:
  "completeAppointment sampleStore 7 ''a2'' ''hosp1'' ''O+'' ''d-a2'' ''General'' ''hospital''
     = Inl InvalidStateTransition \<and>
   markAppointmentNoShow sampleStore ''a3'' = Inl InvalidStateTransition \<and>
   fst (handleCompleteAppointment sampleStore 7 ''hosp1'' sampleInventory (\<lambda>_. True)
          (sampleAppointment ''a2'' ''John Roe'' ''2024-06-01'' Completed) ''O+'') = sampleStore \<and>
   fst (handleNoShow sampleStore (\<lambda>_. True) ''a3'') = sampleStore"
proof -
  let ?a2 = "sampleAppointment ''a2'' ''John Roe'' ''2024-06-01'' Completed"
  let ?a3 = "sampleAppointment ''a3'' ''Mary Janeway'' ''2024-06-01'' NoShow"
  have f2: "find (\<lambda>a. apptId a = apptId ?a2) (appointmentDocs sampleStore) = Some ?a2"
    by (simp add: sampleStore_def sampleAppointment_def)
  have f3: "find (\<lambda>a. apptId a = apptId ?a3) (appointmentDocs sampleStore) = Some ?a3"
    by (simp add: sampleStore_def sampleAppointment_def)
  have t2: "status ?a2 = Completed \<or> status ?a2 = NoShow"
    by (simp add: sampleAppointment_def)
  have t3: "status ?a3 = Completed \<or> status ?a3 = NoShow"
    by (simp add: sampleAppointment_def)
  have ids: "apptId ?a2 = ''a2''" "apptId ?a3 = ''a3''" "donorId ?a2 = ''d-a2''"
       "hospitalName sampleInventory = ''General''"
    by (simp_all add: sampleAppointment_def sampleInventory_def)
  from terminal_appointment_rejected [OF f2 t2, of 7 "''hosp1''" "''O+''" sampleInventory "\<lambda>_. True"]
       terminal_appointment_rejected [OF f3 t3, of 7 "''hosp1''" "''O+''" sampleInventory "\<lambda>_. True"]
  show ?thesis
    unfolding ids by blast
qed

section \<open>Validation of the confirmed blood type\<close>

lemma selectableTypes_are_labels: "set selectableTypes = set bloodTypes"
  by (auto simp: selectableTypes_def bloodTypes_def)

lemma empty_is_no_label: "[] \<notin> set bloodTypes"
  by (simp add: bloodTypes_def)

text \<open>
  Claim C6. For a scheduled appointment and a confirmed blood type that is empty or not one
  of the eight labels, the completion is rejected with \<open>ValidationError\<close>; the handler
  leaves the store unchanged (no transition, no stock increment) and reports no success.
  The empty selection is refused by the handler itself, before the dialog and before any
  store call; and no such type can come from the card's selector.
\<close>

theorem invalid_blood_type_rejected:
  assumes "find (\<lambda>a. apptId a = apptId appt) (appointmentDocs st) = Some doc"
      and "status doc = Scheduled"
      and "bt = [] \<or> bt \<notin> set bloodTypes"
  shows "completeAppointment st now (apptId appt) uid bt (donorId appt) (hospitalName inventory) ''hospital''
           = Inl ValidationError \<and>
         fst (handleCompleteAppointment st now uid inventory confirm appt bt) = st \<and>
         (\<forall>m. ToastSuccess m \<notin> set (snd (handleCompleteAppointment st now uid inventory confirm appt bt))) \<and>
         (bt = [] \<longrightarrow> snd (handleCompleteAppointment st now uid inventory confirm appt bt)
                        = [ToastError ''Please select the collected blood type.'']) \<and>
         bt \<notin> set selectableTypes"
proof -
  have rej: "completeAppointment st now (apptId appt) uid bt (donorId appt) (hospitalName inventory) ''hospital''
           = Inl ValidationError"
    using assms by (auto simp: completeAppointment_def)
  have early: "bt = [] \<longrightarrow> snd (handleCompleteAppointment st now uid inventory confirm appt bt)
                        = [ToastError ''Please select the collected blood type.'']"
    by (simp add: handleCompleteAppointment_def)
  have "bt \<notin> set bloodTypes"
    using assms(3) empty_is_no_label by auto
  then have "bt \<notin> set selectableTypes"
    by (simp add: selectableTypes_are_labels)
  with rej early handleCompleteAppointment_rejected [OF rej, of confirm] show ?thesis
    by simp
qed

theorem invalid_blood_type_rejected_witness:
  "completeAppointment sampleStore 7 ''a1'' ''hosp1'' ''C+'' ''d-a1'' ''General'' ''hospital''
     = Inl ValidationError \<and>
   fst (handleCompleteAppointment sampleStore 7 ''hosp1'' sampleInventory (\<lambda>_. True)
          (sampleAppointment ''a1'' ''Jane Doe'' ''2024-06-02'' Scheduled) ''C+'') = sampleStore \<and>
   handleCompleteAppointment sampleStore 7 ''hosp1'' sampleInventory (\<lambda>_. True)
          (sampleAppointment ''a1'' ''Jane Doe'' ''2024-06-02'' Scheduled) []
     = (sampleStore, [ToastError ''Please select the collected blood type.''])"
proof -
  let ?a1 = "sampleAppointment ''a1'' ''Jane Doe'' ''2024-06-02'' Scheduled"
  have f1: "find (\<lambda>a. apptId a = apptId ?a1) (appointmentDocs sampleStore) = Some ?a1"
    by (simp add: sampleStore_def sampleAppointment_def)
  have s1: "status ?a1 = Scheduled"
    by (simp add: sampleAppointment_def)
  have bad: "''C+'' = [] \<or> ''C+'' \<notin> set bloodTypes"
    by (simp add: bloodTypes_def)
  have bad': "([]::string) = [] \<or> [] \<notin> set bloodTypes"
    by simp
  have ids: "apptId ?a1 = ''a1''" "donorId ?a1 = ''d-a1''" "hospitalName sampleInventory = ''General''"
    by (simp_all add: sampleAppointment_def sampleInventory_def)
  from invalid_blood_type_rejected [OF f1 s1 bad, of 7 "''hosp1''" sampleInventory "\<lambda>_. True"]
       invalid_blood_type_rejected [OF f1 s1 bad', of 7 "''hosp1''" sampleInventory "\<lambda>_. True"]
  show ?thesis
    unfolding ids by (simp add: prod_eq_iff)
qed

section \<open>The schedule listing\<close>

lemma startsWith_iff: "startsWith s t \<longleftrightarrow> (\<exists>r. s = t @ r)"
  by (induction s t rule: startsWith.induct) auto

lemma strIncludes_iff: "strIncludes s t \<longleftrightarrow> (\<exists>p r. s = p @ t @ r)"
proof (induction s)
  case Nil
  then show ?case by auto
next
  case (Cons c s)
  show ?case
  proof
    assume "strIncludes (c # s) t"
    then consider "startsWith (c # s) t" | "strIncludes s t"
      by auto
    then show "\<exists>p r. c # s = p @ t @ r"
    proof cases
      case 1
      then obtain r where "c # s = t @ r"
        by (auto simp: startsWith_iff)
      then have "c # s = [] @ t @ r"
        by simp
      then show ?thesis by blast
    next
      case 2
      then obtain p r where "s = p @ t @ r"
        using Cons.IH by auto
      then have "c # s = (c # p) @ t @ r"
        by simp
      then show ?thesis by blast
    qed
  next
    assume "\<exists>p r. c # s = p @ t @ r"
    then obtain p r where eq: "c # s = p @ t @ r"
      by auto
    show "strIncludes (c # s) t"
    proof (cases p)
      case Nil
      with eq have "startsWith (c # s) t"
        by (auto simp: startsWith_iff)
      then show ?thesis by simp
    next
      case (Cons c' p')
      with eq have "s = p' @ t @ r"
        by simp
      then have "strIncludes s t"
        using Cons.IH by auto
      then show ?thesis by simp
    qed
  qed
qed

lemma includes_lower_iff:
  "strIncludes (toLowerCase name) (toLowerCase needle) \<longleftrightarrow>
     containsIgnoringCase toLowerCase name needle"
  by (simp add: strIncludes_iff containsIgnoringCase_def)



lemma displayAppointments_filter:
  "displayAppointments toLowerCase appointments v search =
     filter (\<lambda>appt. viewSelects v appt \<and> containsIgnoringCase toLowerCase (donorName appt) search)
       appointments"
proof -
  have "\<And>appt. (if v = Active then status appt = Scheduled else status appt \<noteq> Scheduled) = viewSelects v appt"
    by (cases v; case_tac "status appt") (simp_all add: viewSelects_def)
  then show ?thesis
    by (simp add: displayAppointments_def filteredAppointments_def includes_lower_iff conj_commute)
qed

text \<open>The letters the sample lowering moves, and some characters it keeps.\<close>

lemma latin1LowerCase_table:
  "latin1LowerCase ''ABCDEFGHIJKLMNOPQRSTUVWXYZ'' = ''abcdefghijklmnopqrstuvwxyz''"
  "latin1LowerCase ''abcdefghijklmnopqrstuvwxyz 0123456789-@[`{'' = ''abcdefghijklmnopqrstuvwxyz 0123456789-@[`{''"
  "latin1LowerCase [CHR 0xC0, CHR 0xC9, CHR 0xD6, CHR 0xD8, CHR 0xDE] =
     [CHR 0xE0, CHR 0xE9, CHR 0xF6, CHR 0xF8, CHR 0xFE]"
  "latin1LowerCase [CHR 0xBF, CHR 0xD7, CHR 0xDF, CHR 0xE9, CHR 0xF7, CHR 0xFF] =
     [CHR 0xBF, CHR 0xD7, CHR 0xDF, CHR 0xE9, CHR 0xF7, CHR 0xFF]"
  by code_simp+

lemma latin1LowerCase_Nil: "latin1LowerCase [] = []"
  by (simp add: latin1LowerCase_def)

text \<open>The grouping, as long as it does not throw.\<close>

lemma map_of_push:
  "map_of (map (\<lambda>(k, g). if k = d then (k, g @ [a]) else (k, g)) acc) k =
     (if k = d then map_option (\<lambda>g. g @ [a]) (map_of acc k) else map_of acc k)"
  by (induction acc) auto

lemma keys_push:
  "map fst (map (\<lambda>(k, g). if k = d then (k, g @ [a]) else (k, g)) acc) = map fst acc"
  by (induction acc) auto

lemma map_of_pushGroup:
  "map_of (pushGroup acc a) k =
     (if k = date a then Some ((case map_of acc k of None \<Rightarrow> [] | Some g \<Rightarrow> g) @ [a])
      else map_of acc k)"
proof (cases "map_of acc (date a)")
  case None
  let ?acc' = "acc @ [(date a, [])]"
  let ?push = "\<lambda>(k, g). if k = date a then (k, g @ [a]) else (k, g)"
  have step: "pushGroup acc a = map ?push ?acc'"
    using None by (simp add: pushGroup_def Let_def)
  have new: "map_of ?acc' k = (if k = date a then Some [] else map_of acc k)"
    using None by (cases "k = date a") (auto simp: map_add_def split: option.splits)
  have "map_of (map ?push ?acc') k =
          (if k = date a then map_option (\<lambda>g. g @ [a]) (map_of ?acc' k) else map_of ?acc' k)"
    by (rule map_of_push)
  with None show ?thesis
    unfolding step new by simp
next
  case (Some g)
  then show ?thesis
    by (simp add: pushGroup_def Let_def map_of_push)
qed

lemma keys_pushGroup:
  "map fst (pushGroup acc a) =
     (if date a \<in> set (map fst acc) then map fst acc else map fst acc @ [date a])"
  by (auto simp: pushGroup_def Let_def keys_push map_of_eq_None_iff)

lemma map_of_pushed:
  "map_of (foldl pushGroup [] xs) k =
     (if k \<in> date ` set xs then Some (filter (\<lambda>a. date a = k) xs) else None)"
proof (induction xs rule: rev_induct)
  case Nil
  then show ?case by simp
next
  case (snoc a xs)
  have absent: "filter (\<lambda>b. date b = k) xs = []" if "k \<notin> date ` set xs"
    using that by (auto simp: filter_empty_conv)
  show ?case
  proof (cases "k = date a")
    case True
    show ?thesis
    proof (cases "k \<in> date ` set xs")
      case True
      with \<open>k = date a\<close> snoc show ?thesis
        by (simp add: map_of_pushGroup)
    next
      case False
      with \<open>k = date a\<close> snoc absent show ?thesis
        by (simp add: map_of_pushGroup)
    qed
  next
    case False
    with snoc show ?thesis
      by (auto simp: map_of_pushGroup)
  qed
qed

lemma keys_pushed:
  "distinct (map fst (foldl pushGroup [] xs)) \<and> set (map fst (foldl pushGroup [] xs)) = date ` set xs"
proof (induction xs rule: rev_induct)
  case Nil
  then show ?case by simp
next
  case (snoc a xs)
  then show ?case
    by (auto simp: keys_pushGroup)
qed

text \<open>
  The grouping throws exactly when a date to be grouped names an inherited property.
\<close>

lemma groupAll_foldl:
  assumes "\<And>a. a \<in> set xs \<Longrightarrow> date a \<notin> set objectPrototypeNames"
  shows "groupAll acc xs = Some (foldl pushGroup acc xs)"
  using assms by (induction xs arbitrary: acc) (simp_all add: groupStep_def)

lemma groupAll_throws:
  assumes "a \<in> set xs" and "date a \<in> set objectPrototypeNames"
      and "set (map fst acc) \<inter> set objectPrototypeNames = {}"
  shows "groupAll acc xs = None"
  using assms
proof (induction xs arbitrary: acc)
  case Nil
  then show ?case by simp
next
  case (Cons x xs)
  show ?case
  proof (cases "date x \<in> set objectPrototypeNames")
    case True
    with Cons.prems(3) have "date x \<notin> set (map fst acc)"
      by auto
    then have "map_of acc (date x) = None"
      by (simp add: map_of_eq_None_iff)
    with True show ?thesis
      by (simp add: groupStep_def)
  next
    case False
    with Cons.prems(1,2) have "a \<in> set xs"
      by auto
    moreover from False Cons.prems(3)
    have "set (map fst (pushGroup acc x)) \<inter> set objectPrototypeNames = {}"
      by (auto simp: keys_pushGroup)
    ultimately have "groupAll (pushGroup acc x) xs = None"
      using Cons.prems(2) by (intro Cons.IH)
    with False show ?thesis
      by (simp add: groupStep_def)
  qed
qed

lemma grouped_pushed:
  assumes "\<And>a. a \<in> set xs \<Longrightarrow> date a \<notin> set objectPrototypeNames"
  shows "grouped xs = Some (foldl pushGroup [] xs)"
  unfolding grouped_def using assms by (rule groupAll_foldl)

lemma renderGroups_total:
  assumes "\<And>d. d \<in> set ds \<Longrightarrow> map_of g d = Some (f d)"
  shows "renderGroups g ds = Some (map (\<lambda>d. (d, f d)) ds)"
  using assms by (induction ds) auto

lemma sortedDates_pushed:
  "sortedDates (foldl pushGroup [] xs) = sorted_list_of_set (date ` set xs)"
proof -
  let ?ks = "map fst (foldl pushGroup [] xs)"
  have "sorted (sort ?ks)" and "distinct (sort ?ks)"
    using keys_pushed [of xs] by simp_all
  then have "sorted_list_of_set (set (sort ?ks)) = sort ?ks"
    by (rule sorted_list_of_set.idem_if_sorted_distinct)
  moreover have "set (sort ?ks) = date ` set xs"
    using keys_pushed [of xs] by simp
  ultimately show ?thesis
    by (simp add: sortedDates_def)
qed

lemma viewAppointments_eq:
  assumes "\<And>a. a \<in> set (displayAppointments toLowerCase appointments v search)
             \<Longrightarrow> date a \<notin> set objectPrototypeNames"
  shows "viewAppointments toLowerCase appointments v search =
     Some (map (\<lambda>d. (d, filter (\<lambda>a. date a = d) (displayAppointments toLowerCase appointments v search)))
             (sorted_list_of_set (date ` set (displayAppointments toLowerCase appointments v search))))"
proof -
  let ?sel = "displayAppointments toLowerCase appointments v search"
  let ?g = "foldl pushGroup [] ?sel"
  have g: "grouped ?sel = Some ?g"
    using assms by (rule grouped_pushed)
  have "renderGroups ?g (sortedDates ?g) =
          Some (map (\<lambda>d. (d, filter (\<lambda>a. date a = d) ?sel)) (sortedDates ?g))"
    by (rule renderGroups_total) (simp add: sortedDates_pushed map_of_pushed)
  then show ?thesis
    by (simp add: viewAppointments_def g sortedDates_pushed)
qed

lemma viewAppointments_throws:
  assumes "a \<in> set (displayAppointments toLowerCase appointments v search)"
      and "date a \<in> set objectPrototypeNames"
  shows "viewAppointments toLowerCase appointments v search = None"
proof -
  have "groupAll [] (displayAppointments toLowerCase appointments v search) = None"
    using assms by (rule groupAll_throws) simp
  then show ?thesis
    by (simp add: viewAppointments_def grouped_def)
qed

lemma viewAppointments_throws_example:
  "viewAppointments latin1LowerCase
     [sampleAppointment ''a1'' ''Jane Doe'' ''2024-06-02'' Scheduled,
      sampleAppointment ''a7'' ''Max Roe'' ''constructor'' Scheduled] Active [] = None"
  by code_simp

text \<open>A calendar date in ISO form names no inherited property.\<close>

lemma isoDate_not_inherited:
  assumes "isoDate d \<noteq> None"
  shows "d \<notin> set objectPrototypeNames"
proof
  assume "d \<in> set objectPrototypeNames"
  then have "length d \<noteq> 10"
    by (auto simp: objectPrototypeNames_def)
  then have "isoDate d = None"
    by (simp add: isoDate_def)
  with assms show False
    by simp
qed

lemma viewAppointments_iso_dates:
  assumes "\<And>a. a \<in> set appointments \<Longrightarrow> isoDate (date a) \<noteq> None"
  shows "viewAppointments toLowerCase appointments v search \<noteq> None"
proof -
  have "date a \<notin> set objectPrototypeNames"
    if "a \<in> set (displayAppointments toLowerCase appointments v search)" for a
  proof -
    from that have "a \<in> set appointments"
      by (simp add: displayAppointments_filter)
    then show ?thesis
      using assms by (intro isoDate_not_inherited)
  qed
  then show ?thesis
    by (simp add: viewAppointments_eq)
qed

lemma mset_filter_split:
  assumes "\<And>x. \<not> (P x \<and> Q x)"
  shows "mset (filter P xs) + mset (filter Q xs) = mset (filter (\<lambda>x. P x \<or> Q x) xs)"
  using assms by (induction xs) auto

lemma mset_concat_groups:
  assumes "distinct ds"
  shows "mset (concat (map (\<lambda>d. filter (\<lambda>a. key a = d) xs) ds)) = mset (filter (\<lambda>a. key a \<in> set ds) xs)"
  using assms
proof (induction ds)
  case Nil
  then show ?case by simp
next
  case (Cons d ds)
  have "mset (filter (\<lambda>a. key a = d) xs) + mset (filter (\<lambda>a. key a \<in> set ds) xs) =
          mset (filter (\<lambda>a. key a = d \<or> key a \<in> set ds) xs)"
    using Cons.prems by (intro mset_filter_split) auto
  with Cons show ?case
    by simp
qed

lemma groups_cover:
  "mset (concat (map (\<lambda>d. filter (\<lambda>a. date a = d) xs) (sorted_list_of_set (date ` set xs)))) = mset xs"
proof -
  have "mset (concat (map (\<lambda>d. filter (\<lambda>a. date a = d) xs) (sorted_list_of_set (date ` set xs)))) =
          mset (filter (\<lambda>a. date a \<in> set (sorted_list_of_set (date ` set xs))) xs)"
    by (rule mset_concat_groups) simp
  also have "\<dots> = mset xs"
    by simp
  finally show ?thesis .
qed


text \<open>
  Claim C5. Provided no selected appointment has a date that names a property every object
  inherits (no calendar date does; with such a date the listing throws), the listing has
  its blocks as follows: the block of a date holds exactly the selected appointments of
  that date, in the order they have in the input list; the dates of the blocks are strictly
  ascending in the lexicographic order of the date strings, and are the dates of the
  selected appointments; and the blocks together hold every selected appointment once.
\<close>

theorem viewAppointments_groups:
  assumes "\<And>a. a \<in> set (displayAppointments toLowerCase appointments v search)
             \<Longrightarrow> date a \<notin> set objectPrototypeNames"
  shows "\<exists>blocks. viewAppointments toLowerCase appointments v search = Some blocks \<and>
      map snd blocks =
        map (\<lambda>d. filter (\<lambda>a. date a = d) (displayAppointments toLowerCase appointments v search))
          (map fst blocks) \<and>
      sorted_wrt (<) (map fst blocks) \<and>
      set (map fst blocks) = date ` set (displayAppointments toLowerCase appointments v search) \<and>
      mset (concat (map snd blocks)) = mset (displayAppointments toLowerCase appointments v search)"
proof -
  let ?sel = "displayAppointments toLowerCase appointments v search"
  let ?ds = "sorted_list_of_set (date ` set ?sel)"
  let ?blocks = "map (\<lambda>d. (d, filter (\<lambda>a. date a = d) ?sel)) ?ds"
  have fst: "map fst ?blocks = ?ds" and snd: "map snd ?blocks = map (\<lambda>d. filter (\<lambda>a. date a = d) ?sel) ?ds"
    by (simp_all add: comp_def)
  have "viewAppointments toLowerCase appointments v search = Some ?blocks"
    using assms by (rule viewAppointments_eq)
  moreover have "map snd ?blocks = map (\<lambda>d. filter (\<lambda>a. date a = d) ?sel) (map fst ?blocks)"
    unfolding fst snd ..
  moreover have "sorted_wrt (<) (map fst ?blocks)"
    unfolding fst by (simp add: strict_sorted_iff)
  moreover have "set (map fst ?blocks) = date ` set ?sel"
    unfolding fst by simp
  moreover have "mset (concat (map snd ?blocks)) = mset ?sel"
    unfolding snd by (rule groups_cover)
  ultimately show ?thesis
    by blast
qed



theorem viewAppointments_groups_witness:
  "viewAppointments latin1LowerCase sampleAppointments Active [] =
     Some [(''2024-05-30'', [sampleAppointment ''a4'' ''Al Jones'' ''2024-05-30'' Scheduled]),
           (''2024-06-02'', [sampleAppointment ''a1'' ''Jane Doe'' ''2024-06-02'' Scheduled,
                             sampleAppointment ''a5'' ''Bo Lee'' ''2024-06-02'' Scheduled])] \<and>
   sorted_wrt (<) [''2024-05-30'', ''2024-06-02''] \<and>
   mset (displayAppointments latin1LowerCase sampleAppointments Active []) =
     mset [sampleAppointment ''a4'' ''Al Jones'' ''2024-05-30'' Scheduled,
           sampleAppointment ''a1'' ''Jane Doe'' ''2024-06-02'' Scheduled,
           sampleAppointment ''a5'' ''Bo Lee'' ''2024-06-02'' Scheduled]"
proof -
  have run: "viewAppointments latin1LowerCase sampleAppointments Active [] =
     Some [(''2024-05-30'', [sampleAppointment ''a4'' ''Al Jones'' ''2024-05-30'' Scheduled]),
           (''2024-06-02'', [sampleAppointment ''a1'' ''Jane Doe'' ''2024-06-02'' Scheduled,
                             sampleAppointment ''a5'' ''Bo Lee'' ''2024-06-02'' Scheduled])]"
    by code_simp
  have dates: "date a \<notin> set objectPrototypeNames"
    if "a \<in> set (displayAppointments latin1LowerCase sampleAppointments Active [])" for a
  proof -
    have "\<forall>a \<in> set (displayAppointments latin1LowerCase sampleAppointments Active []).
        date a \<notin> set objectPrototypeNames"
      by code_simp
    with that show ?thesis
      by blast
  qed
  from viewAppointments_groups [of latin1LowerCase sampleAppointments Active "[]", OF dates]
  obtain blocks where
    b: "viewAppointments latin1LowerCase sampleAppointments Active [] = Some blocks" and
    s: "sorted_wrt (<) (map fst blocks)" and
    m: "mset (concat (map snd blocks)) = mset (displayAppointments latin1LowerCase sampleAppointments Active [])"
    by blast
  from b run have blocks: "blocks =
      [(''2024-05-30'', [sampleAppointment ''a4'' ''Al Jones'' ''2024-05-30'' Scheduled]),
       (''2024-06-02'', [sampleAppointment ''a1'' ''Jane Doe'' ''2024-06-02'' Scheduled,
                         sampleAppointment ''a5'' ''Bo Lee'' ''2024-06-02'' Scheduled])]"
    by (simp only: option.inject)
  from s have s': "sorted_wrt (<) [''2024-05-30'', ''2024-06-02'']"
    unfolding blocks by (simp only: list.map fst_conv)
  from m have m': "mset (displayAppointments latin1LowerCase sampleAppointments Active []) =
     mset [sampleAppointment ''a4'' ''Al Jones'' ''2024-05-30'' Scheduled,
           sampleAppointment ''a1'' ''Jane Doe'' ''2024-06-02'' Scheduled,
           sampleAppointment ''a5'' ''Bo Lee'' ''2024-06-02'' Scheduled]"
    unfolding blocks by (simp only: list.map snd_conv concat.simps append.simps)
  from run s' m' show ?thesis
    by (intro conjI)
qed

section \<open>Calendar dates and their time values\<close>

lemma digitValue_digits:
  "digitValue CHR ''0'' = Some 0" "digitValue CHR ''1'' = Some 1" "digitValue CHR ''2'' = Some 2"
  "digitValue CHR ''3'' = Some 3" "digitValue CHR ''4'' = Some 4" "digitValue CHR ''5'' = Some 5"
  "digitValue CHR ''6'' = Some 6" "digitValue CHR ''7'' = Some 7" "digitValue CHR ''8'' = Some 8"
  "digitValue CHR ''9'' = Some 9" "digitValue CHR ''-'' = None"
  by (simp_all add: digitValue_def)

lemma mod_400_100: "y mod 400 = 0 \<Longrightarrow> y mod 100 = 0" for y :: nat
proof -
  assume "y mod 400 = 0"
  then have "400 dvd y"
    by (simp add: mod_eq_0_iff_dvd)
  moreover have "(100::nat) dvd 400"
    by simp
  ultimately have "100 dvd y"
    by (rule dvd_trans [rotated])
  then show ?thesis
    by (simp add: mod_eq_0_iff_dvd)
qed

lemma mod_100_4: "y mod 100 = 0 \<Longrightarrow> y mod 4 = 0" for y :: nat
proof -
  assume "y mod 100 = 0"
  then have "100 dvd y"
    by (simp add: mod_eq_0_iff_dvd)
  moreover have "(4::nat) dvd 100"
    by simp
  ultimately have "4 dvd y"
    by (rule dvd_trans [rotated])
  then show ?thesis
    by (simp add: mod_eq_0_iff_dvd)
qed

lemma daysBeforeYear_Suc:
  "daysBeforeYear (Suc y) = daysBeforeYear y + int (yearLength y)"
proof (cases y)
  case 0
  then show ?thesis
    by (simp add: daysBeforeYear_def yearLength_def isLeapYear_def)
next
  case (Suc n)
  consider (a) "y mod 400 = 0" | (b) "y mod 400 \<noteq> 0" "y mod 100 = 0"
    | (c) "y mod 100 \<noteq> 0" "y mod 4 = 0" | (d) "y mod 4 \<noteq> 0"
    by blast
  then show ?thesis
  proof cases
    case a
    then have h: "y mod 100 = 0" by (rule mod_400_100)
    then have "y mod 4 = 0" by (rule mod_100_4)
    with a h Suc show ?thesis
      by (simp add: daysBeforeYear_def yearLength_def isLeapYear_def div_Suc)
  next
    case b
    then have "y mod 4 = 0" by (intro mod_100_4)
    with b Suc show ?thesis
      by (simp add: daysBeforeYear_def yearLength_def isLeapYear_def div_Suc)
  next
    case c
    then have "y mod 400 \<noteq> 0" using mod_400_100 [of y] by auto
    with c Suc show ?thesis
      by (simp add: daysBeforeYear_def yearLength_def isLeapYear_def div_Suc)
  next
    case d
    then have "y mod 100 \<noteq> 0" using mod_100_4 [of y] by auto
    moreover from this have "y mod 400 \<noteq> 0" using mod_400_100 [of y] by auto
    ultimately show ?thesis
      using d Suc by (simp add: daysBeforeYear_def yearLength_def isLeapYear_def div_Suc)
  qed
qed

lemma daysBeforeYear_next:
  assumes "y < y'"
  shows "daysBeforeYear y + int (yearLength y) \<le> daysBeforeYear y'"
  using assms
proof (induction y')
  case 0
  then show ?case by simp
next
  case (Suc y')
  show ?case
  proof (cases "y = y'")
    case True
    then show ?thesis by (simp add: daysBeforeYear_Suc)
  next
    case False
    with Suc have "daysBeforeYear y + int (yearLength y) \<le> daysBeforeYear y'"
      by simp
    then show ?thesis
      by (simp add: daysBeforeYear_Suc)
  qed
qed

lemma daysBeforeMonth_split:
  assumes "1 \<le> m" and "m \<le> m'"
  shows "daysBeforeMonth y m' = daysBeforeMonth y m + sum_list (map (daysInMonth y) [m..<m'])"
proof -
  from assms obtain k where "m' = m + k"
    using le_Suc_ex by blast
  with assms(1) upt_add_eq_append [of 1 m k] have "[1..<m'] = [1..<m] @ [m..<m']"
    by simp
  then show ?thesis
    by (simp add: daysBeforeMonth_def)
qed

lemma daysBeforeMonth_next:
  assumes "1 \<le> m" and "m < m'"
  shows "daysBeforeMonth y m + daysInMonth y m \<le> daysBeforeMonth y m'"
proof -
  from assms have "[m..<m'] = m # [Suc m..<m']"
    by (simp add: upt_conv_Cons)
  then have "daysInMonth y m \<le> sum_list (map (daysInMonth y) [m..<m'])"
    by simp
  with daysBeforeMonth_split [of m m' y] assms show ?thesis
    by simp
qed

lemma daysBeforeMonth_13: "daysBeforeMonth y 13 = yearLength y"
  by (simp add: daysBeforeMonth_def upt_conv_Cons daysInMonth_def yearLength_def)

lemma day_of_year_bound:
  assumes "1 \<le> m" and "m \<le> 12" and "d \<le> daysInMonth y m"
  shows "daysBeforeMonth y m + d \<le> yearLength y"
  using daysBeforeMonth_next [of m 13 y] assms by (simp add: daysBeforeMonth_13)

lemma dayNumber_mono:
  assumes "validDate (y, m, d)" and "validDate (y', m', d')"
      and "y < y' \<or> y = y' \<and> (m < m' \<or> m = m' \<and> d < d')"
  shows "dayNumber (y, m, d) < dayNumber (y', m', d')"
proof -
  from assms(1,2) have v: "1 \<le> m" "m \<le> 12" "d \<le> daysInMonth y m" "1 \<le> d'"
    by (simp_all add: validDate_def)
  from assms(3) consider (year) "y < y'" | (month) "y = y'" "m < m'" | (day) "y = y'" "m = m'" "d < d'"
    by blast
  then show ?thesis
  proof cases
    case year
    from day_of_year_bound [OF v(1,2,3)] daysBeforeYear_next [OF year] v(4)
    show ?thesis
      by (simp add: dayNumber_def)
  next
    case month
    from daysBeforeMonth_next [OF v(1) month(2), of y] v month(1) show ?thesis
      by (simp add: dayNumber_def)
  next
    case day
    then show ?thesis
      by (simp add: dayNumber_def)
  qed
qed


lemma digitValue_code:
  assumes "digitValue c = Some d"
  shows "of_char c = 48 + d" and "d \<le> 9"
  using assms by (auto simp: digitValue_def Let_def split: if_splits)

lemma digit_order:
  assumes "digitValue c = Some d" and "digitValue c' = Some d'"
  shows "(c < c') = (d < d')" and "(c = c') = (d = d')"
proof -
  from assms have codes: "(of_char c :: nat) = 48 + d" "(of_char c' :: nat) = 48 + d'"
    by (simp_all add: digitValue_code)
  then show "(c < c') = (d < d')"
    by (simp add: less_char_def)
  have "(c = c') = ((of_char c :: nat) = of_char c')"
    by simp
  with codes show "(c = c') = (d = d')"
    by simp
qed

lemma digitsValue_bound:
  "digitsValue cs = Some v \<Longrightarrow> v < 10 ^ length cs"
proof (induction cs arbitrary: v)
  case Nil
  then show ?case by simp
next
  case (Cons c cs)
  then obtain d w where d: "digitValue c = Some d" and w: "digitsValue cs = Some w"
    and v: "v = d * 10 ^ length cs + w"
    by (auto split: option.splits)
  define K :: nat where "K = 10 ^ length cs"
  from d have "d \<le> 9"
    by (rule digitValue_code)
  then have "d * K \<le> 9 * K"
    by (rule mult_le_mono1)
  moreover from Cons.IH [OF w] have "w < K"
    by (simp add: K_def)
  moreover have "v = d * K + w" and "10 ^ length (c # cs) = 10 * K"
    using v by (simp_all add: K_def)
  ultimately show ?case
    by linarith
qed

lemma positional_order:
  fixes d d' v v' K :: nat
  assumes "v < K" and "v' < K"
  shows "(d * K + v < d' * K + v') = (d < d' \<or> d = d' \<and> v < v')"
    and "(d * K + v = d' * K + v') = (d = d' \<and> v = v')"
proof -
  have up: "a * K + x < b * K + y" if "a < b" "x < K" for a b x y :: nat
  proof -
    from that(1) have "Suc a * K \<le> b * K"
      by (intro mult_le_mono1) simp
    with that(2) show ?thesis
      by simp
  qed
  consider "d < d'" | "d = d'" | "d' < d"
    by (rule linorder_cases)
  then show "(d * K + v < d' * K + v') = (d < d' \<or> d = d' \<and> v < v')"
  proof cases
    case 1
    with up [OF 1 assms(1), of v'] show ?thesis by simp
  next
    case 2
    then show ?thesis by simp
  next
    case 3
    with up [OF 3 assms(2), of v] show ?thesis by simp
  qed
  consider "d < d'" | "d = d'" | "d' < d"
    by (rule linorder_cases)
  then show "(d * K + v = d' * K + v') = (d = d' \<and> v = v')"
  proof cases
    case 1
    with up [OF 1 assms(1), of v'] show ?thesis by simp
  next
    case 2
    then show ?thesis by simp
  next
    case 3
    with up [OF 3 assms(2), of v] show ?thesis by simp
  qed
qed

lemma digits_order:
  assumes "length a = length b" and "digitsValue a = Some x" and "digitsValue b = Some y"
  shows "(a < b) = (x < y) \<and> (a = b) = (x = y)"
  using assms
proof (induction a b arbitrary: x y rule: list_induct2)
  case Nil
  then show ?case by simp
next
  case (Cons c cs c' cs')
  from Cons.prems(1) obtain d v where d: "digitValue c = Some d" and v: "digitsValue cs = Some v"
    and x: "x = d * 10 ^ length cs + v"
    by (auto split: option.splits)
  from Cons.prems(2) obtain d' v' where d': "digitValue c' = Some d'" and v': "digitsValue cs' = Some v'"
    and y: "y = d' * 10 ^ length cs' + v'"
    by (auto split: option.splits)
  from Cons.IH [OF v v'] have IH: "(cs < cs') = (v < v')" "(cs = cs') = (v = v')"
    by simp_all
  from digitsValue_bound [OF v] digitsValue_bound [OF v'] Cons.hyps
  have b: "v < 10 ^ length cs" "v' < 10 ^ length cs"
    by simp_all
  have "(c # cs < c' # cs') = (d < d' \<or> d = d' \<and> v < v')"
    using digit_order [OF d d'] IH by simp
  moreover have "(c # cs = c' # cs') = (d = d' \<and> v = v')"
    using digit_order [OF d d'] IH by simp
  ultimately show ?case
    using positional_order [OF b, of d d'] x y Cons.hyps by simp
qed

lemma append_order:
  fixes a b r s :: string
  assumes "length a = length b"
  shows "(a @ r < b @ s) = (a < b \<or> a = b \<and> r < s)"
  using assms by (induction a b rule: list_induct2) auto

lemma isoDate_parts:
  assumes "isoDate s = Some (y, m, d)"
  obtains Y M D where "s = Y @ CHR ''-'' # M @ CHR ''-'' # D"
    and "length Y = 4" and "length M = 2"  and "length D = 2"
    and "digitsValue Y = Some y" and "digitsValue M = Some m" and "digitsValue D = Some d"
    and "validDate (y, m, d)"
proof -
  from assms have len: "length s = 10" and h1: "s ! 4 = CHR ''-''" and h2: "s ! 7 = CHR ''-''"
    by (auto simp: isoDate_def split: if_splits)
  with assms have vals: "digitsValue (take 4 s) = Some y" "digitsValue (take 2 (drop 5 s)) = Some m"
      "digitsValue (drop 8 s) = Some d" and valid: "validDate (y, m, d)"
    by (auto simp: isoDate_def validDate_def split: if_splits option.splits)
  have "s = take 4 s @ drop 4 s"
    by simp
  also have "drop 4 s = s ! 4 # drop 5 s"
    using len by (simp add: Cons_nth_drop_Suc [symmetric])
  also have "drop 5 s = take 2 (drop 5 s) @ drop 7 s"
    using append_take_drop_id [of 2 "drop 5 s"] by simp
  also have "drop 7 s = s ! 7 # drop 8 s"
    using len by (simp add: Cons_nth_drop_Suc [symmetric])
  finally have "s = take 4 s @ CHR ''-'' # take 2 (drop 5 s) @ CHR ''-'' # drop 8 s"
    using h1 h2 by simp
  moreover have "length (take 4 s) = 4" "length (take 2 (drop 5 s)) = 2" "length (drop 8 s) = 2"
    using len by simp_all
  ultimately show ?thesis
    using vals valid that by blast
qed

lemma isoDate_order:
  assumes "isoDate s = Some (y, m, d)" and "isoDate s' = Some (y', m', d')"
  shows "(s < s') = (y < y' \<or> y = y' \<and> (m < m' \<or> m = m' \<and> d < d'))"
proof -
  from assms(1) obtain Y M D where s: "s = Y @ CHR ''-'' # M @ CHR ''-'' # D"
    and l: "length Y = 4" "length M = 2" "length D = 2"
    and v: "digitsValue Y = Some y" "digitsValue M = Some m" "digitsValue D = Some d"
    by (rule isoDate_parts)
  from assms(2) obtain Y' M' D' where s': "s' = Y' @ CHR ''-'' # M' @ CHR ''-'' # D'"
    and l': "length Y' = 4" "length M' = 2" "length D' = 2"
    and v': "digitsValue Y' = Some y'" "digitsValue M' = Some m'" "digitsValue D' = Some d'"
    by (rule isoDate_parts)
  have oy: "(Y < Y') = (y < y')" "(Y = Y') = (y = y')"
    using digits_order [OF _ v(1) v'(1)] l l' by simp_all
  have om: "(M < M') = (m < m')" "(M = M') = (m = m')"
    using digits_order [OF _ v(2) v'(2)] l l' by simp_all
  have od: "(D < D') = (d < d')"
    using digits_order [OF _ v(3) v'(3)] l l' by simp_all
  have "(s < s') = (Y < Y' \<or> Y = Y' \<and> (M @ CHR ''-'' # D < M' @ CHR ''-'' # D'))"
    unfolding s s' using l l' by (simp add: append_order)
  also have "(M @ CHR ''-'' # D < M' @ CHR ''-'' # D') = (M < M' \<or> M = M' \<and> D < D')"
    using l l' by (simp add: append_order)
  finally show ?thesis
    by (simp add: oy om od)
qed

lemma isoDateValue_mono:
  assumes "isoDateValue x = Some s" and "isoDateValue y = Some t" and "x < y"
  shows "s < t"
proof -
  from assms(1) obtain a b c where px: "isoDate x = Some (a, b, c)" and s: "s = 86400000 * dayNumber (a, b, c)"
    by (auto simp: isoDateValue_def)
  from assms(2) obtain a' b' c' where py: "isoDate y = Some (a', b', c')" and t: "t = 86400000 * dayNumber (a', b', c')"
    by (auto simp: isoDateValue_def)
  from px have vx: "validDate (a, b, c)"
    by (rule isoDate_parts)
  from py have vy: "validDate (a', b', c')"
    by (rule isoDate_parts)
  from isoDate_order [OF px py] assms(3)
  have "a < a' \<or> a = a' \<and> (b < b' \<or> b = b' \<and> c < c')"
    by simp
  with vx vy have "dayNumber (a, b, c) < dayNumber (a', b', c')"
    by (rule dayNumber_mono)
  with s t show ?thesis
    by simp
qed

lemma isoDateValue_chronological:
  assumes "\<And>d. d \<in> set ds \<Longrightarrow> isoDateValue d \<noteq> None"
  shows "datesChronological isoDateValue ds"
  unfolding datesChronological_def
proof (intro ballI)
  fix x y
  assume "x \<in> set ds" and "y \<in> set ds"
  with assms obtain s t where s: "isoDateValue x = Some s" and t: "isoDateValue y = Some t"
    by fastforce
  have "(x < y) = (s < t)"
  proof
    assume "x < y"
    with s t show "s < t"
      by (rule isoDateValue_mono)
  next
    assume st: "s < t"
    show "x < y"
    proof (rule ccontr)
      assume "\<not> x < y"
      then consider "x = y" | "y < x"
        by fastforce
      then show False
      proof cases
        case 1
        with s t st show False by simp
      next
        case 2
        with t s have "t < s"
          by (rule isoDateValue_mono)
        with st show False by simp
      qed
    qed
  qed
  with s t show "\<exists>s t. isoDateValue x = Some s \<and> isoDateValue y = Some t \<and> (x < y) = (s < t)"
    by blast
qed

lemma isoDateValue_examples:
  "isoDateValue ''1970-01-01'' = Some 0"
  "isoDateValue ''2024-06-01'' = Some 1717200000000"
  "isoDateValue ''2024-02-29'' = Some 1709164800000"
  "isoDateValue ''2023-02-29'' = None"
  "isoDateValue ''2024-6-1'' = None"
  by (simp_all add: isoDateValue_def isoDate_def digitValue_digits dayNumber_def daysBeforeYear_def
        daysBeforeMonth_def upt_conv_Cons daysInMonth_def isLeapYear_def)

section \<open>Upcoming camps\<close>

lemma insertBy_insort_key:
  assumes "\<And>y. y \<in> set ys \<Longrightarrow> cmp x y = Some (key x - key y)"
  shows "insertBy cmp x ys = insort_key key x ys"
  using assms by (induction ys) auto

lemma sortWith_sort_key:
  assumes "\<And>x y. x \<in> set xs \<Longrightarrow> y \<in> set xs \<Longrightarrow> cmp x y = Some (key x - key y)"
  shows "sortWith cmp xs = sort_key key xs"
  using assms
proof (induction xs)
  case Nil
  then show ?case by (simp add: sortWith_def)
next
  case (Cons x xs)
  then have IH: "sortWith cmp xs = sort_key key xs"
    by simp
  have "insertBy cmp x (sort_key key xs) = insort_key key x (sort_key key xs)"
    using Cons.prems by (intro insertBy_insort_key) simp
  with IH show ?case
    by (simp add: sortWith_def)
qed

lemma sort_key_agree:
  fixes f :: "'a \<Rightarrow> 'k::linorder" and g :: "'a \<Rightarrow> 'l::linorder"
  assumes "\<And>x y. x \<in> set xs \<Longrightarrow> y \<in> set xs \<Longrightarrow> (f x < f y) = (g x < g y)"
  shows "sort_key f xs = sort_key g xs"
proof (rule sym, rule properties_for_sort_key)
  show "mset (sort_key f xs) = mset xs"
    by simp
next
  have le: "(f x \<le> f y) = (g x \<le> g y)" if "x \<in> set xs" "y \<in> set xs" for x y
    using assms [of y x] that by (simp add: not_less [symmetric])
  have "sorted_wrt (\<lambda>x y. f x \<le> f y) (sort_key f xs)"
    using sorted_sort_key [of f xs] by (simp add: sorted_map)
  then have "sorted_wrt (\<lambda>x y. g x \<le> g y) (sort_key f xs)"
    by (rule sorted_wrt_mono_rel [rotated]) (simp add: le)
  then show "sorted (map g (sort_key f xs))"
    by (simp add: sorted_map)
next
  fix k
  assume "k \<in> set (sort_key f xs)"
  then have k: "k \<in> set xs"
    by simp
  have eq: "(g k = g x) = (f x = f k)" if "x \<in> set xs" for x
    using assms [of k x] assms [of x k] k that by (auto simp: antisym_conv3)
  have "filter (\<lambda>x. g k = g x) (sort_key f xs) = filter (\<lambda>x. f x = f k) (sort_key f xs)"
    by (rule filter_cong) (simp_all add: eq)
  also have "\<dots> = filter (\<lambda>x. f x = f k) xs"
    by (rule sort_key_stable)
  also have "\<dots> = filter (\<lambda>x. g k = g x) xs"
    by (rule filter_cong) (simp_all add: eq)
  finally show "filter (\<lambda>x. g k = g x) (sort_key f xs) = filter (\<lambda>x. g k = g x) xs" .
qed

lemma upcomingCamps_sort_key:
  assumes "datesChronological dateValue (map campDate (filter (\<lambda>camp. today \<le> campDate camp) data))"
  shows "upcomingCamps dateValue data today =
           sort_key campDate (filter (\<lambda>camp. today \<le> campDate camp) data)"
proof -
  let ?sel = "filter (\<lambda>camp. today \<le> campDate camp) data"
  define ts where "ts camp = the (dateValue (campDate camp))" for camp :: "'a camp"
  have pair: "\<exists>s t. dateValue (campDate a) = Some s \<and> dateValue (campDate b) = Some t \<and>
                (campDate a < campDate b \<longleftrightarrow> s < t)"
    if "a \<in> set ?sel" "b \<in> set ?sel" for a b
    using assms that unfolding datesChronological_def by (simp del: set_filter)
  have cmp: "compareDates dateValue a b = Some (ts a - ts b)" if "a \<in> set ?sel" "b \<in> set ?sel" for a b
    using pair [OF that] by (auto simp: compareDates_def ts_def)
  have order: "(ts a < ts b) = (campDate a < campDate b)" if "a \<in> set ?sel" "b \<in> set ?sel" for a b
    using pair [OF that] by (auto simp: ts_def)
  have "upcomingCamps dateValue data today = sort_key ts ?sel"
    unfolding upcomingCamps_def by (rule sortWith_sort_key) (rule cmp)
  also have "\<dots> = sort_key campDate ?sel"
    by (rule sort_key_agree) (rule order)
  finally show ?thesis .
qed

text \<open>
  With the time values of ISO calendar dates, the condition on the date values is met as
  soon as every kept camp carries such a date.
\<close>

lemma upcomingCamps_iso_dates:
  assumes "\<And>camp. camp \<in> set data \<Longrightarrow> today \<le> campDate camp \<Longrightarrow> isoDateValue (campDate camp) \<noteq> None"
  shows "upcomingCamps isoDateValue data today =
           sort_key campDate (filter (\<lambda>camp. today \<le> campDate camp) data)"
proof (rule upcomingCamps_sort_key, rule isoDateValue_chronological)
  fix d
  assume "d \<in> set (map campDate (filter (\<lambda>camp. today \<le> campDate camp) data))"
  then obtain camp where "camp \<in> set data" "today \<le> campDate camp" "d = campDate camp"
    by auto
  with assms show "isoDateValue d \<noteq> None"
    by simp
qed

lemma mset_insertBy: "mset (insertBy cmp x ys) = add_mset x (mset ys)"
  by (induction ys) (auto split: option.splits)

lemma mset_sortWith: "mset (sortWith cmp xs) = mset xs"
  by (induction xs) (simp_all add: sortWith_def mset_insertBy)

lemma upcomingCamps_keeps:
  "mset (upcomingCamps dateValue data today) = mset (filter (\<lambda>camp. today \<le> campDate camp) data)"
  by (simp add: upcomingCamps_def mset_sortWith)

text \<open>
  Claim C7. The upcoming camps are exactly the camps of the list whose date is at least
  \<open>today\<close>, each as often as in the list: a camp dated today is kept and a camp dated
  earlier is dropped. Provided the date values order the dates of the kept camps as the
  date strings are ordered (as they do for ISO calendar dates), the result is in ascending
  order of date, and camps of equal date keep the order they had in the list.
\<close>

theorem upcomingCamps_filtered_sorted:
  "mset (upcomingCamps dateValue data today) = mset (filter (\<lambda>camp. today \<le> campDate camp) data) \<and>
   set (upcomingCamps dateValue data today) = {camp. camp \<in> set data \<and> today \<le> campDate camp} \<and>
   (datesChronological dateValue (map campDate (filter (\<lambda>camp. today \<le> campDate camp) data)) \<longrightarrow>
      sorted (map campDate (upcomingCamps dateValue data today)) \<and>
      upcomingCamps dateValue data today =
        sort_key campDate (filter (\<lambda>camp. today \<le> campDate camp) data))"
proof (intro conjI impI)
  show keeps: "mset (upcomingCamps dateValue data today) =
      mset (filter (\<lambda>camp. today \<le> campDate camp) data)"
    by (rule upcomingCamps_keeps)
  from keeps have "set (upcomingCamps dateValue data today) =
      set (filter (\<lambda>camp. today \<le> campDate camp) data)"
    by (rule mset_eq_setD)
  then show "set (upcomingCamps dateValue data today) = {camp. camp \<in> set data \<and> today \<le> campDate camp}"
    by simp
next
  assume "datesChronological dateValue (map campDate (filter (\<lambda>camp. today \<le> campDate camp) data))"
  then show eq: "upcomingCamps dateValue data today =
      sort_key campDate (filter (\<lambda>camp. today \<le> campDate camp) data)"
    by (rule upcomingCamps_sort_key)
  show "sorted (map campDate (upcomingCamps dateValue data today))"
    unfolding eq by simp
qed

theorem upcomingCamps_filtered_sorted_witness:
  "upcomingCamps isoDateValue sampleCamps ''2024-06-01'' =
     [sampleCamp ''Today'' ''2024-06-01'', sampleCamp ''South'' ''2024-06-01'',
      sampleCamp ''North'' ''2024-07-15''] \<and>
   sampleCamp ''Old'' ''2024-05-30'' \<notin> set (upcomingCamps isoDateValue sampleCamps ''2024-06-01'') \<and>
   sampleCamp ''Today'' ''2024-06-01'' \<in> set (upcomingCamps isoDateValue sampleCamps ''2024-06-01'')"
proof -
  have sel: "filter (\<lambda>camp. ''2024-06-01'' \<le> campDate camp) sampleCamps =
      [sampleCamp ''North'' ''2024-07-15'', sampleCamp ''Today'' ''2024-06-01'',
       sampleCamp ''South'' ''2024-06-01'']"
    by code_simp
  have dates: "map campDate [sampleCamp ''North'' ''2024-07-15'', sampleCamp ''Today'' ''2024-06-01'',
       sampleCamp ''South'' ''2024-06-01''] = [''2024-07-15'', ''2024-06-01'', ''2024-06-01'']"
    by (simp add: sampleCamp_def)
  have iso: "isoDateValue d \<noteq> None" if "d \<in> set [''2024-07-15'', ''2024-06-01'', ''2024-06-01'']" for d
    using that
    by (auto simp: isoDateValue_def isoDate_def digitValue_digits daysInMonth_def)
  have chrono: "datesChronological isoDateValue
      (map campDate (filter (\<lambda>camp. ''2024-06-01'' \<le> campDate camp) sampleCamps))"
    unfolding sel dates using iso by (rule isoDateValue_chronological)
  have sorted: "sort_key campDate [sampleCamp ''North'' ''2024-07-15'', sampleCamp ''Today'' ''2024-06-01'',
       sampleCamp ''South'' ''2024-06-01''] =
     [sampleCamp ''Today'' ''2024-06-01'', sampleCamp ''South'' ''2024-06-01'',
      sampleCamp ''North'' ''2024-07-15'']"
    by code_simp
  have old: "sampleCamp ''Old'' ''2024-05-30'' \<notin> set [sampleCamp ''Today'' ''2024-06-01'',
      sampleCamp ''South'' ''2024-06-01'', sampleCamp ''North'' ''2024-07-15'']"
    by (simp add: sampleCamp_def)
  from upcomingCamps_filtered_sorted [of isoDateValue sampleCamps "''2024-06-01''"] chrono
  have "upcomingCamps isoDateValue sampleCamps ''2024-06-01'' =
          sort_key campDate (filter (\<lambda>camp. ''2024-06-01'' \<le> campDate camp) sampleCamps)"
    by blast
  then have run: "upcomingCamps isoDateValue sampleCamps ''2024-06-01'' =
     [sampleCamp ''Today'' ''2024-06-01'', sampleCamp ''South'' ''2024-06-01'',
      sampleCamp ''North'' ''2024-07-15'']"
    by (simp only: sel sorted)
  show ?thesis
    unfolding run using old by simp
qed

section \<open>The camp form after a submission\<close>

text \<open>
  Claim C10. When the store accepts the submitted camp, the seven text fields of the form
  (camp name, organizer name, contact, address, date, start time, end time) are the empty
  string afterwards, and the coordinates are the ones the form held before.
\<close>

theorem handleAddCamp_resets_text_fields:
  assumes "addDonationCamp uid (form p) = Inr u"
  shows "\<exists>p' effects.
           handleAddCamp addDonationCamp uid p = (p', effects) \<and>
           campName (form p') = [] \<and> organizerName (form p') = [] \<and> contact (form p') = [] \<and>
           campAddress (form p') = [] \<and> campDate (form p') = [] \<and>
           startTime (form p') = [] \<and> endTime (form p') = [] \<and>
           location (form p') = location (form p)"
  using assms by (simp add: handleAddCamp_def)

theorem handleAddCamp_resets_text_fields_witness:
  "\<exists>p' effects.
     handleAddCamp (\<lambda>uid camp. Inr ()) ''org1'' samplePortal = (p', effects) \<and>
     campName (form p') = [] \<and> campDate (form p') = [] \<and>
     location (form p') = \<lparr>lat = 12, lng = 77\<rparr>"
proof -
  have ok: "(\<lambda>uid camp. Inr ()) ''org1'' (form samplePortal) = (Inr () :: error + unit)"
    by simp
  have loc: "location (form samplePortal) = \<lparr>lat = 12, lng = 77\<rparr>"
    by (simp add: samplePortal_def)
  from handleAddCamp_resets_text_fields [of "\<lambda>uid camp. Inr ()" "''org1''" samplePortal, OF ok]
  show ?thesis
    unfolding loc by blast
qed

lemma handleAddCamp_failure_keeps_form:
  assumes "addDonationCamp uid (form p) = Inl e"
  shows "form (fst (handleAddCamp addDonationCamp uid p)) = form p"
  using assms by (simp add: handleAddCamp_def)

section \<open>Reverse lookup of a picked position\<close>

lemma fetchAddress_success:
  assumes "display_name \<noteq> []"
  shows "fst (snd (fetchAddress numberToString (Inr (Data (Some display_name))) la lo pk)) =
           \<lparr>locLat = la, locLng = lo, locAddress = display_name\<rparr>"
  using assms by (simp add: fetchAddress_def)

text \<open>
  Claim C8. When the reverse lookup fails, or answers no body, or a body with no display
  name or an empty one, the location handed on is the picked coordinate with the label
  ``lat, lng'' as its address; and a pick on the map then completes: the form takes over
  the new coordinates and that label as the address.
\<close>

theorem fetchAddress_falls_back:
  assumes "(\<exists>e. response = Inl e) \<or> response = Inr NoData \<or> response = Inr (Data None) \<or>
           response = Inr (Data (Some []))"
  shows "fst (snd (fetchAddress numberToString response la lo pk)) =
           \<lparr>locLat = la, locLng = lo, locAddress = numberToString la @ '', '' @ numberToString lo\<rparr> \<and>
         (\<exists>pk' p'.
            selectOnMap numberToString response newPos pk p = (pk', p') \<and>
            location (form p') = newPos \<and>
            campAddress (form p') = numberToString (lat newPos) @ '', '' @ numberToString (lng newPos))"
proof -
  have fb: "fetchAddress numberToString response x y k =
      (k, \<lparr>locLat = x, locLng = y, locAddress = coordinateLabel numberToString x y\<rparr>,
       (case response of Inl e \<Rightarrow> [LogError ''Error fetching address:'' e] | Inr _ \<Rightarrow> []))" for x y k
    using assms by (auto simp: fetchAddress_def)
  have nonempty: "coordinateLabel numberToString x y \<noteq> []" for x y
    by (simp add: coordinateLabel_def)
  have "fst (snd (fetchAddress numberToString response la lo pk)) =
           \<lparr>locLat = la, locLng = lo, locAddress = numberToString la @ '', '' @ numberToString lo\<rparr>"
    by (simp add: fb coordinateLabel_def)
  moreover have "\<exists>pk' p'.
            selectOnMap numberToString response newPos pk p = (pk', p') \<and>
            location (form p') = newPos \<and>
            campAddress (form p') = numberToString (lat newPos) @ '', '' @ numberToString (lng newPos)"
    using nonempty [of "lat newPos" "lng newPos"]
    by (simp add: selectOnMap_def fb handleLocationSelect_def) (simp add: coordinateLabel_def)
  ultimately show ?thesis
    by blast
qed

theorem fetchAddress_falls_back_witness:
  "fst (snd (fetchAddress showInt (Inl ExternalServiceError) 12 77
         \<lparr>position = \<lparr>lat = 0, lng = 0\<rparr>, shownAddress = ''Old Town''\<rparr>)) =
     \<lparr>locLat = 12, locLng = 77, locAddress = ''12, 77''\<rparr> \<and>
   fst (snd (fetchAddress showInt (Inr (Data None)) 12 77
         \<lparr>position = \<lparr>lat = 0, lng = 0\<rparr>, shownAddress = ''Old Town''\<rparr>)) =
     \<lparr>locLat = 12, locLng = 77, locAddress = ''12, 77''\<rparr> \<and>
   (\<exists>pk' p'.
      selectOnMap showInt (Inr NoData) \<lparr>lat = 13, lng = - 80\<rparr>
        \<lparr>position = \<lparr>lat = 0, lng = 0\<rparr>, shownAddress = ''Old Town''\<rparr> samplePortal = (pk', p') \<and>
      location (form p') = \<lparr>lat = 13, lng = - 80\<rparr> \<and>
      campAddress (form p') = ''13, -80'')"
proof -
  have failed: "(\<exists>e. (Inl ExternalServiceError :: error + geoData) = Inl e) \<or>
      (Inl ExternalServiceError :: error + geoData) = Inr NoData \<or>
      (Inl ExternalServiceError :: error + geoData) = Inr (Data None) \<or>
      (Inl ExternalServiceError :: error + geoData) = Inr (Data (Some []))"
    by simp
  have nameless: "(\<exists>e. (Inr (Data None) :: error + geoData) = Inl e) \<or>
      (Inr (Data None) :: error + geoData) = Inr NoData \<or>
      (Inr (Data None) :: error + geoData) = Inr (Data None) \<or>
      (Inr (Data None) :: error + geoData) = Inr (Data (Some []))"
    by simp
  have bodyless: "(\<exists>e. (Inr NoData :: error + geoData) = Inl e) \<or>
      (Inr NoData :: error + geoData) = Inr NoData \<or>
      (Inr NoData :: error + geoData) = Inr (Data None) \<or>
      (Inr NoData :: error + geoData) = Inr (Data (Some []))"
    by simp
  have label: "showInt 12 @ '', '' @ showInt 77 = ''12, 77''"
    by code_simp
  have label': "showInt (lat \<lparr>lat = 13, lng = - 80\<rparr>) @ '', '' @ showInt (lng \<lparr>lat = 13, lng = - 80 :: int\<rparr>)
      = ''13, -80''"
    by code_simp
  from fetchAddress_falls_back [OF failed, of showInt 12 77]
  have a: "fst (snd (fetchAddress showInt (Inl ExternalServiceError) 12 77
         \<lparr>position = \<lparr>lat = 0, lng = 0\<rparr>, shownAddress = ''Old Town''\<rparr>)) =
     \<lparr>locLat = 12, locLng = 77, locAddress = ''12, 77''\<rparr>"
    unfolding label by blast
  from fetchAddress_falls_back [OF nameless, of showInt 12 77]
  have b: "fst (snd (fetchAddress showInt (Inr (Data None)) 12 77
         \<lparr>position = \<lparr>lat = 0, lng = 0\<rparr>, shownAddress = ''Old Town''\<rparr>)) =
     \<lparr>locLat = 12, locLng = 77, locAddress = ''12, 77''\<rparr>"
    unfolding label by blast
  from fetchAddress_falls_back [where numberToString = showInt
      and newPos = "\<lparr>lat = 13, lng = - 80\<rparr>"
      and pk = "\<lparr>position = \<lparr>lat = 0, lng = 0\<rparr>, shownAddress = ''Old Town''\<rparr>"
      and p = samplePortal, OF bodyless]
  have c: "\<exists>pk' p'.
      selectOnMap showInt (Inr NoData) \<lparr>lat = 13, lng = - 80\<rparr>
        \<lparr>position = \<lparr>lat = 0, lng = 0\<rparr>, shownAddress = ''Old Town''\<rparr> samplePortal = (pk', p') \<and>
      location (form p') = \<lparr>lat = 13, lng = - 80\<rparr> \<and>
      campAddress (form p') = ''13, -80''"
    unfolding label' by blast
  from a b c show ?thesis
    by (intro conjI)
qed

end
